theory Spec2Isabelle
  imports Complex_Main "HOL-Library.Word"
begin

section \<open>Data model\<close>

text \<open>
  The worker renders a weather band and a calendar agenda into an 8-bit grayscale pixel
  buffer and encodes the buffer as a BMP file. JavaScript numbers that hold pixel
  coordinates, dimensions and loop counters are modelled as unbounded integers; bytes of
  a \<open>Uint8Array\<close> are 8-bit words; a JavaScript string is the list of its UTF-16 code
  units, which is what \<open>.length\<close> and \<open>.slice\<close> count.
\<close>

type_synonym byte = "8 word"
type_synonym jsstring = "16 word list"

text \<open>A string literal of the source whose characters are all below U+0100.\<close>

definition js :: "string \<Rightarrow> jsstring" where
  "js s = map (\<lambda>c. word_of_nat (of_char c)) s"

text \<open>
  Iterating a string with \<open>for (const char of text)\<close> yields code points: a high
  surrogate followed by a low surrogate is one character made of two code units.
\<close>

definition is_high_surrogate :: "16 word \<Rightarrow> bool" where
  "is_high_surrogate u = (0xD800 \<le> u \<and> u \<le> 0xDBFF)"

definition is_low_surrogate :: "16 word \<Rightarrow> bool" where
  "is_low_surrogate u = (0xDC00 \<le> u \<and> u \<le> 0xDFFF)"

fun codePoints :: "jsstring \<Rightarrow> jsstring list" where
  "codePoints [] = []"
| "codePoints [u] = [[u]]"
| "codePoints (u # v # rest) =
     (if is_high_surrogate u \<and> is_low_surrogate v
      then [u, v] # codePoints rest
      else [u] # codePoints (v # rest))"

text \<open>\<open>text.slice(b, e)\<close>: negative positions count from the end and are clamped at 0.\<close>

definition js_slice :: "jsstring \<Rightarrow> int \<Rightarrow> int \<Rightarrow> jsstring" where
  "js_slice s b e =
     (let len = int (length s);
          from = (if b < 0 then max (len + b) 0 else min b len);
          to = (if e < 0 then max (len + e) 0 else min e len)
      in take (nat (to - from)) (drop (nat from) s))"

text \<open>Template-literal conversion of an integer number to its decimal string.\<close>

fun show_nat :: "nat \<Rightarrow> string" where
  "show_nat n = (if n < 10 then [char_of (48 + n)]
                 else show_nat (n div 10) @ [char_of (48 + n mod 10)])"

declare show_nat.simps [simp del]

definition show_int :: "int \<Rightarrow> jsstring" where
  "show_int i = js (if i < 0 then CHR ''-'' # show_nat (nat (- i)) else show_nat (nat i))"

subsection \<open>Colour constants\<close>

definition INK_BLACK :: byte where "INK_BLACK = 0"
definition DARK_GRAY :: byte where "DARK_GRAY = 64"
definition LIGHT_GRAY :: byte where "LIGHT_GRAY = 176"
definition PAPER_WHITE :: byte where "PAPER_WHITE = 255"

subsection \<open>The 8x12 bitmap font\<close>

definition FONT_DATA :: "(char \<times> nat list) list" where
  "FONT_DATA = [
    (CHR ''0'', [0x3C, 0x66, 0x6E, 0x76, 0x66, 0x66, 0x3C, 0x00, 0x00, 0x00, 0x00, 0x00]),
    (CHR ''1'', [0x18, 0x38, 0x18, 0x18, 0x18, 0x18, 0x7E, 0x00, 0x00, 0x00, 0x00, 0x00]),
    (CHR ''2'', [0x3C, 0x66, 0x06, 0x1C, 0x30, 0x60, 0x7E, 0x00, 0x00, 0x00, 0x00, 0x00]),
    (CHR ''3'', [0x3C, 0x66, 0x06, 0x1C, 0x06, 0x66, 0x3C, 0x00, 0x00, 0x00, 0x00, 0x00]),
    (CHR ''4'', [0x0C, 0x1C, 0x3C, 0x6C, 0x7E, 0x0C, 0x0C, 0x00, 0x00, 0x00, 0x00, 0x00]),
    (CHR ''5'', [0x7E, 0x60, 0x7C, 0x06, 0x06, 0x66, 0x3C, 0x00, 0x00, 0x00, 0x00, 0x00]),
    (CHR ''6'', [0x1C, 0x30, 0x60, 0x7C, 0x66, 0x66, 0x3C, 0x00, 0x00, 0x00, 0x00, 0x00]),
    (CHR ''7'', [0x7E, 0x06, 0x0C, 0x18, 0x30, 0x30, 0x30, 0x00, 0x00, 0x00, 0x00, 0x00]),
    (CHR ''8'', [0x3C, 0x66, 0x66, 0x3C, 0x66, 0x66, 0x3C, 0x00, 0x00, 0x00, 0x00, 0x00]),
    (CHR ''9'', [0x3C, 0x66, 0x66, 0x3E, 0x06, 0x0C, 0x38, 0x00, 0x00, 0x00, 0x00, 0x00]),
    (CHR ''A'', [0x18, 0x3C, 0x66, 0x66, 0x7E, 0x66, 0x66, 0x00, 0x00, 0x00, 0x00, 0x00]),
    (CHR ''B'', [0x7C, 0x66, 0x66, 0x7C, 0x66, 0x66, 0x7C, 0x00, 0x00, 0x00, 0x00, 0x00]),
    (CHR ''C'', [0x3C, 0x66, 0x60, 0x60, 0x60, 0x66, 0x3C, 0x00, 0x00, 0x00, 0x00, 0x00]),
    (CHR ''D'', [0x78, 0x6C, 0x66, 0x66, 0x66, 0x6C, 0x78, 0x00, 0x00, 0x00, 0x00, 0x00]),
    (CHR ''E'', [0x7E, 0x60, 0x60, 0x7C, 0x60, 0x60, 0x7E, 0x00, 0x00, 0x00, 0x00, 0x00]),
    (CHR ''F'', [0x7E, 0x60, 0x60, 0x7C, 0x60, 0x60, 0x60, 0x00, 0x00, 0x00, 0x00, 0x00]),
    (CHR ''G'', [0x3C, 0x66, 0x60, 0x6E, 0x66, 0x66, 0x3C, 0x00, 0x00, 0x00, 0x00, 0x00]),
    (CHR ''H'', [0x66, 0x66, 0x66, 0x7E, 0x66, 0x66, 0x66, 0x00, 0x00, 0x00, 0x00, 0x00]),
    (CHR ''I'', [0x3C, 0x18, 0x18, 0x18, 0x18, 0x18, 0x3C, 0x00, 0x00, 0x00, 0x00, 0x00]),
    (CHR ''J'', [0x06, 0x06, 0x06, 0x06, 0x06, 0x66, 0x3C, 0x00, 0x00, 0x00, 0x00, 0x00]),
    (CHR ''K'', [0x66, 0x6C, 0x78, 0x70, 0x78, 0x6C, 0x66, 0x00, 0x00, 0x00, 0x00, 0x00]),
    (CHR ''L'', [0x60, 0x60, 0x60, 0x60, 0x60, 0x60, 0x7E, 0x00, 0x00, 0x00, 0x00, 0x00]),
    (CHR ''M'', [0x63, 0x77, 0x7F, 0x6B, 0x63, 0x63, 0x63, 0x00, 0x00, 0x00, 0x00, 0x00]),
    (CHR ''N'', [0x66, 0x76, 0x7E, 0x7E, 0x6E, 0x66, 0x66, 0x00, 0x00, 0x00, 0x00, 0x00]),
    (CHR ''O'', [0x3C, 0x66, 0x66, 0x66, 0x66, 0x66, 0x3C, 0x00, 0x00, 0x00, 0x00, 0x00]),
    (CHR ''P'', [0x7C, 0x66, 0x66, 0x7C, 0x60, 0x60, 0x60, 0x00, 0x00, 0x00, 0x00, 0x00]),
    (CHR ''Q'', [0x3C, 0x66, 0x66, 0x66, 0x6A, 0x6C, 0x36, 0x00, 0x00, 0x00, 0x00, 0x00]),
    (CHR ''R'', [0x7C, 0x66, 0x66, 0x7C, 0x6C, 0x66, 0x66, 0x00, 0x00, 0x00, 0x00, 0x00]),
    (CHR ''S'', [0x3C, 0x66, 0x60, 0x3C, 0x06, 0x66, 0x3C, 0x00, 0x00, 0x00, 0x00, 0x00]),
    (CHR ''T'', [0x7E, 0x18, 0x18, 0x18, 0x18, 0x18, 0x18, 0x00, 0x00, 0x00, 0x00, 0x00]),
    (CHR ''U'', [0x66, 0x66, 0x66, 0x66, 0x66, 0x66, 0x3C, 0x00, 0x00, 0x00, 0x00, 0x00]),
    (CHR ''V'', [0x66, 0x66, 0x66, 0x66, 0x66, 0x3C, 0x18, 0x00, 0x00, 0x00, 0x00, 0x00]),
    (CHR ''W'', [0x63, 0x63, 0x63, 0x6B, 0x7F, 0x77, 0x63, 0x00, 0x00, 0x00, 0x00, 0x00]),
    (CHR ''X'', [0x66, 0x66, 0x3C, 0x18, 0x3C, 0x66, 0x66, 0x00, 0x00, 0x00, 0x00, 0x00]),
    (CHR ''Y'', [0x66, 0x66, 0x66, 0x3C, 0x18, 0x18, 0x18, 0x00, 0x00, 0x00, 0x00, 0x00]),
    (CHR ''Z'', [0x7E, 0x06, 0x0C, 0x18, 0x30, 0x60, 0x7E, 0x00, 0x00, 0x00, 0x00, 0x00]),
    (CHR ''a'', [0x00, 0x00, 0x3C, 0x06, 0x3E, 0x66, 0x3E, 0x00, 0x00, 0x00, 0x00, 0x00]),
    (CHR ''b'', [0x60, 0x60, 0x7C, 0x66, 0x66, 0x66, 0x7C, 0x00, 0x00, 0x00, 0x00, 0x00]),
    (CHR ''c'', [0x00, 0x00, 0x3C, 0x66, 0x60, 0x66, 0x3C, 0x00, 0x00, 0x00, 0x00, 0x00]),
    (CHR ''d'', [0x06, 0x06, 0x3E, 0x66, 0x66, 0x66, 0x3E, 0x00, 0x00, 0x00, 0x00, 0x00]),
    (CHR ''e'', [0x00, 0x00, 0x3C, 0x66, 0x7E, 0x60, 0x3C, 0x00, 0x00, 0x00, 0x00, 0x00]),
    (CHR ''f'', [0x1C, 0x36, 0x30, 0x7C, 0x30, 0x30, 0x30, 0x00, 0x00, 0x00, 0x00, 0x00]),
    (CHR ''g'', [0x00, 0x00, 0x3E, 0x66, 0x66, 0x3E, 0x06, 0x3C, 0x00, 0x00, 0x00, 0x00]),
    (CHR ''h'', [0x60, 0x60, 0x7C, 0x66, 0x66, 0x66, 0x66, 0x00, 0x00, 0x00, 0x00, 0x00]),
    (CHR ''i'', [0x18, 0x00, 0x38, 0x18, 0x18, 0x18, 0x3C, 0x00, 0x00, 0x00, 0x00, 0x00]),
    (CHR ''j'', [0x0C, 0x00, 0x1C, 0x0C, 0x0C, 0x0C, 0x6C, 0x38, 0x00, 0x00, 0x00, 0x00]),
    (CHR ''k'', [0x60, 0x60, 0x66, 0x6C, 0x78, 0x6C, 0x66, 0x00, 0x00, 0x00, 0x00, 0x00]),
    (CHR ''l'', [0x38, 0x18, 0x18, 0x18, 0x18, 0x18, 0x3C, 0x00, 0x00, 0x00, 0x00, 0x00]),
    (CHR ''m'', [0x00, 0x00, 0x76, 0x7F, 0x6B, 0x6B, 0x63, 0x00, 0x00, 0x00, 0x00, 0x00]),
    (CHR ''n'', [0x00, 0x00, 0x7C, 0x66, 0x66, 0x66, 0x66, 0x00, 0x00, 0x00, 0x00, 0x00]),
    (CHR ''o'', [0x00, 0x00, 0x3C, 0x66, 0x66, 0x66, 0x3C, 0x00, 0x00, 0x00, 0x00, 0x00]),
    (CHR ''p'', [0x00, 0x00, 0x7C, 0x66, 0x66, 0x7C, 0x60, 0x60, 0x00, 0x00, 0x00, 0x00]),
    (CHR ''q'', [0x00, 0x00, 0x3E, 0x66, 0x66, 0x3E, 0x06, 0x06, 0x00, 0x00, 0x00, 0x00]),
    (CHR ''r'', [0x00, 0x00, 0x6E, 0x76, 0x60, 0x60, 0x60, 0x00, 0x00, 0x00, 0x00, 0x00]),
    (CHR ''s'', [0x00, 0x00, 0x3E, 0x60, 0x3C, 0x06, 0x7C, 0x00, 0x00, 0x00, 0x00, 0x00]),
    (CHR ''t'', [0x30, 0x30, 0x7C, 0x30, 0x30, 0x36, 0x1C, 0x00, 0x00, 0x00, 0x00, 0x00]),
    (CHR ''u'', [0x00, 0x00, 0x66, 0x66, 0x66, 0x66, 0x3E, 0x00, 0x00, 0x00, 0x00, 0x00]),
    (CHR ''v'', [0x00, 0x00, 0x66, 0x66, 0x66, 0x3C, 0x18, 0x00, 0x00, 0x00, 0x00, 0x00]),
    (CHR ''w'', [0x00, 0x00, 0x63, 0x6B, 0x6B, 0x7F, 0x36, 0x00, 0x00, 0x00, 0x00, 0x00]),
    (CHR ''x'', [0x00, 0x00, 0x66, 0x3C, 0x18, 0x3C, 0x66, 0x00, 0x00, 0x00, 0x00, 0x00]),
    (CHR ''y'', [0x00, 0x00, 0x66, 0x66, 0x66, 0x3E, 0x06, 0x3C, 0x00, 0x00, 0x00, 0x00]),
    (CHR ''z'', [0x00, 0x00, 0x7E, 0x0C, 0x18, 0x30, 0x7E, 0x00, 0x00, 0x00, 0x00, 0x00]),
    (CHR '' '', [0x00, 0x00, 0x00, 0x00, 0x00, 0x00, 0x00, 0x00, 0x00, 0x00, 0x00, 0x00]),
    (CHR '':'', [0x00, 0x18, 0x18, 0x00, 0x18, 0x18, 0x00, 0x00, 0x00, 0x00, 0x00, 0x00]),
    (CHR ''.'', [0x00, 0x00, 0x00, 0x00, 0x00, 0x18, 0x18, 0x00, 0x00, 0x00, 0x00, 0x00]),
    (CHR '','', [0x00, 0x00, 0x00, 0x00, 0x00, 0x18, 0x18, 0x30, 0x00, 0x00, 0x00, 0x00]),
    (CHR ''-'', [0x00, 0x00, 0x00, 0x7E, 0x00, 0x00, 0x00, 0x00, 0x00, 0x00, 0x00, 0x00]),
    (CHR ''/'', [0x06, 0x0C, 0x18, 0x30, 0x60, 0x40, 0x00, 0x00, 0x00, 0x00, 0x00, 0x00]),
    (CHR 0xB0, [0x1C, 0x36, 0x36, 0x1C, 0x00, 0x00, 0x00, 0x00, 0x00, 0x00, 0x00, 0x00]),
    (CHR 0x27, [0x18, 0x18, 0x30, 0x00, 0x00, 0x00, 0x00, 0x00, 0x00, 0x00, 0x00, 0x00]),
    (CHR ''('', [0x0C, 0x18, 0x30, 0x30, 0x30, 0x18, 0x0C, 0x00, 0x00, 0x00, 0x00, 0x00]),
    (CHR '')'', [0x30, 0x18, 0x0C, 0x0C, 0x0C, 0x18, 0x30, 0x00, 0x00, 0x00, 0x00, 0x00]),
    (CHR ''+'', [0x00, 0x18, 0x18, 0x7E, 0x18, 0x18, 0x00, 0x00, 0x00, 0x00, 0x00, 0x00])
  ]"

text \<open>
  \<open>FONT_DATA[char]\<close> for one iterated character: the table has one-code-unit keys only,
  all below U+0100, so any other character has no glyph.
\<close>

definition glyph :: "jsstring \<Rightarrow> nat list option" where
  "glyph ch = (case ch of
      [u] \<Rightarrow> if unat u < 256 then map_of FONT_DATA (char_of (unat u)) else None
    | _ \<Rightarrow> None)"

section \<open>Drawing primitives\<close>

text \<open>
  No primitive reads the pixel buffer; each one only performs stores
  \<open>pixels[index] = colour\<close>. A primitive is therefore modelled by the list of the stores
  it performs, in program order, and \<open>paint\<close> executes such a list on a buffer. A store
  into a \<open>Uint8Array\<close> at an index outside the array is dropped by the array.
\<close>

type_synonym store = "int \<times> byte"

definition in_buffer :: "int \<Rightarrow> int \<Rightarrow> int \<Rightarrow> bool" where
  "in_buffer w h i = (0 \<le> i \<and> i < w * h)"

definition put :: "byte list \<Rightarrow> store \<Rightarrow> byte list" where
  "put pixels s = (case s of (i, v) \<Rightarrow>
     if 0 \<le> i \<and> i < int (length pixels) then pixels[nat i := v] else pixels)"

definition paint :: "byte list \<Rightarrow> store list \<Rightarrow> byte list" where
  "paint pixels ss = foldl put pixels ss"

definition drawChar :: "int \<Rightarrow> int \<Rightarrow> int \<Rightarrow> jsstring \<Rightarrow> byte \<Rightarrow> int \<Rightarrow> store list" where
  "drawChar width x y ch color scale =
     (case glyph ch of
        None \<Rightarrow> []
      | Some data \<Rightarrow>
          concat (map (\<lambda>row.
            concat (map (\<lambda>col.
              if and (data ! row) (drop_bit col 0x80) \<noteq> 0
              then concat (map (\<lambda>sy.
                     concat (map (\<lambda>sx.
                       let px = x + int col * scale + sx;
                           py = y + int row * scale + sy
                       in if px \<ge> 0 \<and> px < width \<and> py \<ge> 0
                          then [(py * width + px, color)] else [])
                     [0 .. scale - 1]))
                   [0 .. scale - 1])
              else [])
            [0 ..< 8]))
          [0 ..< 8]))"

text \<open>
  \<open>drawText\<close>: the loop over the characters carries the cursor \<open>cx\<close>; the loop function
  returns the stores together with the cursor after the last character.
\<close>

fun drawText_loop ::
  "int \<Rightarrow> int \<Rightarrow> int \<Rightarrow> jsstring list \<Rightarrow> byte \<Rightarrow> int \<Rightarrow> store list \<times> int" where
  "drawText_loop width cx y [] color scale = ([], cx)"
| "drawText_loop width cx y (ch # rest) color scale =
     (let r = drawText_loop width (cx + 8 * scale) y rest color scale
      in (drawChar width cx y ch color scale @ fst r, snd r))"

definition drawText :: "int \<Rightarrow> int \<Rightarrow> int \<Rightarrow> jsstring \<Rightarrow> byte \<Rightarrow> int \<Rightarrow> store list" where
  "drawText width x y text color scale =
     fst (drawText_loop width x y (codePoints text) color scale)"

definition getTextWidth :: "jsstring \<Rightarrow> int \<Rightarrow> int" where
  "getTextWidth text scale = int (length text) * 8 * scale"

definition drawCenteredText :: "int \<Rightarrow> int \<Rightarrow> jsstring \<Rightarrow> byte \<Rightarrow> int \<Rightarrow> store list" where
  "drawCenteredText width y text color scale =
     (let textWidth = getTextWidth text scale;
          x = (width - textWidth) div 2
      in drawText width x y text color scale)"

definition drawRightAlignedText ::
  "int \<Rightarrow> int \<Rightarrow> jsstring \<Rightarrow> byte \<Rightarrow> int \<Rightarrow> int \<Rightarrow> store list" where
  "drawRightAlignedText width y text color scale margin =
     (let textWidth = getTextWidth text scale;
          x = width - margin - textWidth
      in drawText width x y text color scale)"

definition fillRect ::
  "int \<Rightarrow> int \<Rightarrow> int \<Rightarrow> int \<Rightarrow> int \<Rightarrow> int \<Rightarrow> byte \<Rightarrow> store list" where
  "fillRect width height x y w h color =
     concat (map (\<lambda>py.
       concat (map (\<lambda>px.
         if px \<ge> 0 \<and> py \<ge> 0 then [(py * width + px, color)] else [])
       [x .. min (x + w) width - 1]))
     [y .. min (y + h) height - 1])"

definition drawHLine :: "int \<Rightarrow> int \<Rightarrow> int \<Rightarrow> int \<Rightarrow> byte \<Rightarrow> int \<Rightarrow> store list" where
  "drawHLine width y x1 x2 color thickness =
     fillRect width 9999 x1 y (x2 - x1) thickness color"

text \<open>
  The dashed line is a \<open>while (x < x2)\<close> loop whose step is \<open>dashLen\<close> or \<open>gapLen\<close>; with
  non-positive lengths it need not end, so the loop is option-valued: \<open>None\<close> is a run
  that never returns. The loop state is the position, the drawing flag and the stores
  performed so far.
\<close>

partial_function (option) dashed_loop ::
  "int \<Rightarrow> int \<Rightarrow> int \<Rightarrow> byte \<Rightarrow> int \<Rightarrow> int \<Rightarrow> int \<Rightarrow> bool \<Rightarrow> store list \<Rightarrow> store list option" where
  "dashed_loop width y x2 color dashLen gapLen x drawing stores =
     (if x < x2 then
        (if drawing
         then dashed_loop width y x2 color dashLen gapLen (x + dashLen) (\<not> drawing)
                (stores @ map (\<lambda>px. (y * width + px, color)) [x .. min (x + dashLen) x2 - 1])
         else dashed_loop width y x2 color dashLen gapLen (x + gapLen) (\<not> drawing) stores)
      else Some stores)"

declare dashed_loop.simps [code]

definition drawDashedHLine ::
  "int \<Rightarrow> int \<Rightarrow> int \<Rightarrow> int \<Rightarrow> byte \<Rightarrow> int \<Rightarrow> int \<Rightarrow> store list option" where
  "drawDashedHLine width y x1 x2 color dashLen gapLen =
     dashed_loop width y x2 color dashLen gapLen x1 True []"

subsection \<open>Weather icons\<close>

text \<open>
  The sun and the cloud are sampled with \<open>Math.cos\<close>, \<open>Math.sin\<close> and \<open>Math.round\<close> on
  floating-point numbers. Those results are not computed here: they are parameters of
  the model, one function for each shape of expression in the source.
  \<^item> \<open>round_polar c r f deg\<close> is \<open>Math.round(c + r * f(deg * Math.PI / 180))\<close> for integers
    \<open>c\<close>, \<open>r\<close>, \<open>deg\<close>;
  \<^item> \<open>round_arc a b p h q f deg\<close> is
    \<open>Math.round((a + b * p) + (h * q) * f(deg * Math.PI / 180))\<close> for integers \<open>a\<close>, \<open>b\<close>, \<open>h\<close>,
    \<open>deg\<close> and decimal literals \<open>p\<close>, \<open>q\<close>;
  \<^item> \<open>round_lin a b p\<close> is \<open>Math.round(a + b * p)\<close>.
  A decimal literal is written as a fraction: \<open>(3, 10)\<close> is \<open>0.3\<close>.
\<close>

datatype trig = Cos | Sin

type_synonym decimal = "int \<times> int"

record math =
  round_polar :: "int \<Rightarrow> int \<Rightarrow> trig \<Rightarrow> int \<Rightarrow> int"
  round_arc :: "int \<Rightarrow> int \<Rightarrow> decimal \<Rightarrow> int \<Rightarrow> decimal \<Rightarrow> trig \<Rightarrow> int \<Rightarrow> int"
  round_lin :: "int \<Rightarrow> int \<Rightarrow> decimal \<Rightarrow> int"

text \<open>
  \<open>Math.round(x1 + d * t / 10)\<close> for integers \<open>x1\<close>, \<open>d\<close>, \<open>t\<close>: the argument is an integer
  number of tenths, and \<open>Math.round\<close> rounds a half up.
\<close>

definition round_tenths :: "int \<Rightarrow> int \<Rightarrow> int \<Rightarrow> int" where
  "round_tenths x1 d t = (10 * x1 + d * t + 5) div 10"

text \<open>The branch of \<open>drawWeatherIcon\<close> that a condition code selects.\<close>

datatype icon = Sun | Cloud | Fog | Rain | Snow | Thunderstorm | Unknown

definition iconFor :: "int \<Rightarrow> icon" where
  "iconFor code =
     (if code = 0 \<or> code = 1 then Sun
      else if code \<ge> 2 \<and> code \<le> 3 then Cloud
      else if code \<ge> 45 \<and> code \<le> 48 then Fog
      else if (code \<ge> 51 \<and> code \<le> 67) \<or> (code \<ge> 80 \<and> code \<le> 82) then Rain
      else if (code \<ge> 71 \<and> code \<le> 77) \<or> (code \<ge> 85 \<and> code \<le> 86) then Snow
      else if code \<ge> 95 then Thunderstorm
      else Unknown)"

definition drawCloudShape :: "math \<Rightarrow> int \<Rightarrow> int \<Rightarrow> int \<Rightarrow> int \<Rightarrow> int \<Rightarrow> store list" where
  "drawCloudShape M width x y w h =
     concat (map (\<lambda>k.
       let angle = 180 + 3 * int k;
           arc = (\<lambda>px py. if px \<ge> 0 \<and> px < width \<and> py \<ge> 0
                            then [(py * width + px, INK_BLACK)] else [])
       in arc (round_arc M x w (3, 10) h (4, 10) Cos angle)
              (round_arc M y h (4, 10) h (4, 10) Sin angle)
        @ arc (round_arc M x w (6, 10) h (5, 10) Cos angle)
              (round_arc M y h (3, 10) h (5, 10) Sin angle)
        @ arc (round_arc M x w (8, 10) h (35, 100) Cos angle)
              (round_arc M y h (5, 10) h (35, 100) Sin angle))
     [0 ..< 61])
     @ drawHLine width (round_lin M y h (75, 100))
         (round_lin M x w (1, 10)) (round_lin M x w (95, 100)) INK_BLACK 1"

definition drawSun :: "math \<Rightarrow> int \<Rightarrow> int \<Rightarrow> int \<Rightarrow> store list" where
  "drawSun M width x y =
     (let size = 48; cx = x + size div 2; cy = y + size div 2; r = 14
      in concat (map (\<lambda>k.
           let angle = 5 * int k;
               px = round_polar M cx r Cos angle;
               py = round_polar M cy r Sin angle
           in if px \<ge> 0 \<and> px < width then [(py * width + px, INK_BLACK)] else [])
         [0 ..< 72])
       @ concat (map (\<lambda>i.
           let r1 = r + 4; r2 = r + 10;
               x1 = round_polar M cx r1 Cos (i * 45);
               y1 = round_polar M cy r1 Sin (i * 45);
               x2 = round_polar M cx r2 Cos (i * 45);
               y2 = round_polar M cy r2 Sin (i * 45)
           in concat (map (\<lambda>t.
                let px = round_tenths x1 (x2 - x1) t;
                    py = round_tenths y1 (y2 - y1) t
                in if px \<ge> 0 \<and> px < width \<and> py \<ge> 0
                   then [(py * width + px, INK_BLACK)] else [])
              [0 .. 10]))
         [0 .. 7]))"

definition drawWeatherIcon :: "math \<Rightarrow> int \<Rightarrow> int \<Rightarrow> int \<Rightarrow> int \<Rightarrow> store list" where
  "drawWeatherIcon M width x y code =
     (let size = 48 in
      case iconFor code of
        Sun \<Rightarrow> drawSun M width x y
      | Cloud \<Rightarrow> drawCloudShape M width (x + 8) (y + 16) 32 20
      | Fog \<Rightarrow>
          concat (map (\<lambda>i.
            let ly = y + 12 + i * 10
            in drawHLine width ly (x + 4) (x + size - 4) DARK_GRAY 2)
          [0 .. 3])
      | Rain \<Rightarrow>
          drawCloudShape M width (x + 8) (y + 8) 32 16
          @ concat (map (\<lambda>i.
              let dx = x + 14 + i * 10; dy = y + 32
              in map (\<lambda>j. ((dy + j) * width + dx, INK_BLACK)) [0 .. 7])
            [0 .. 2])
      | Snow \<Rightarrow>
          drawCloudShape M width (x + 8) (y + 8) 32 16
          @ concat (map (\<lambda>i.
              let sx = x + 14 + i * 10; sy = y + 36
              in [(sy * width + sx, INK_BLACK),
                  ((sy - 2) * width + sx, INK_BLACK),
                  ((sy + 2) * width + sx, INK_BLACK),
                  (sy * width + sx - 2, INK_BLACK),
                  (sy * width + sx + 2, INK_BLACK)])
            [0 .. 2])
      | Thunderstorm \<Rightarrow>
          drawCloudShape M width (x + 8) (y + 4) 32 16
          @ concat (map (\<lambda>i.
              let lx = x + 24; ly = y + 24;
                  px = lx + (if i < 6 then - i else i - 12);
                  py = ly + i * 2
              in [(py * width + px, INK_BLACK), (py * width + px + 1, INK_BLACK)])
            [0 .. 11])
      | Unknown \<Rightarrow> drawText width (x + 16) (y + 16) (js ''?'') INK_BLACK 3)"

section \<open>Page composer\<close>

record WeatherData =
  temperature :: int
  temperatureHigh :: int
  temperatureLow :: int
  condition :: jsstring
  conditionCode :: int

record CalendarEvent =
  time :: jsstring
  title :: jsstring
  isAllDay :: bool

record DayEvents =
  label :: jsstring
  date :: int
  events :: "CalendarEvent list"

text \<open>
  What the composer reads of the render timestamp: the results of \<open>getDay()\<close>,
  \<open>getMonth()\<close>, \<open>getDate()\<close> and of the \<open>toLocaleTimeString\<close> call.
\<close>

record Date =
  getDay :: nat
  getMonth :: nat
  getDate :: int
  toLocaleTimeString :: jsstring

datatype error = RangeError

subsection \<open>Title truncation\<close>

definition truncCond :: "int \<Rightarrow> jsstring \<Rightarrow> bool" where
  "truncCond maxTitleWidth t = (getTextWidth t 2 > maxTitleWidth \<and> length t > 3)"

definition truncBody :: "jsstring \<Rightarrow> jsstring" where
  "truncBody t = js_slice t 0 (- 4) @ js ''...''"

function truncateTitle :: "int \<Rightarrow> jsstring \<Rightarrow> jsstring" where
  "truncateTitle maxTitleWidth t =
     (if truncCond maxTitleWidth t then truncateTitle maxTitleWidth (truncBody t) else t)"
  by pat_completeness auto
termination
  by (relation "measure (\<lambda>(m, t). length t)")
     (auto simp: truncCond_def truncBody_def js_slice_def js_def)

declare truncateTitle.simps [simp del]

subsection \<open>Calls of the drawing primitives\<close>

text \<open>
  The composer is a sequence of calls of drawing primitives on the one buffer. Each call
  is recorded with its arguments, in program order; \<open>exec\<close> performs a call and \<open>run\<close> a
  sequence of calls.
\<close>

datatype cmd =
    Text int int jsstring byte int
  | CenteredText int jsstring byte int
  | RightAlignedText int jsstring byte int int
  | HLine int int int byte int
  | DashedHLine int int int byte int int
  | WeatherIcon int int int

fun exec :: "math \<Rightarrow> int \<Rightarrow> cmd \<Rightarrow> store list option" where
  "exec M width (Text x y t color scale) = Some (drawText width x y t color scale)"
| "exec M width (CenteredText y t color scale) = Some (drawCenteredText width y t color scale)"
| "exec M width (RightAlignedText y t color scale margin) =
     Some (drawRightAlignedText width y t color scale margin)"
| "exec M width (HLine y x1 x2 color thickness) = Some (drawHLine width y x1 x2 color thickness)"
| "exec M width (DashedHLine y x1 x2 color dashLen gapLen) =
     drawDashedHLine width y x1 x2 color dashLen gapLen"
| "exec M width (WeatherIcon x y code) = Some (drawWeatherIcon M width x y code)"

fun run :: "math \<Rightarrow> int \<Rightarrow> cmd list \<Rightarrow> store list option" where
  "run M width [] = Some []"
| "run M width (c # cs) =
     (case exec M width c of
        None \<Rightarrow> None
      | Some ss \<Rightarrow> (case run M width cs of None \<Rightarrow> None | Some rest \<Rightarrow> Some (ss @ rest)))"

subsection \<open>Layout constants\<close>

definition MARGIN :: int where "MARGIN = 24"
definition FOOTER_HEIGHT :: int where "FOOTER_HEIGHT = 50"
definition weatherSectionHeight :: int where "weatherSectionHeight = 180"
definition dateSectionEnd :: int where "dateSectionEnd = weatherSectionHeight + 70"
definition eventRowHeight :: int where "eventRowHeight = 45"
definition dayHeaderHeight :: int where "dayHeaderHeight = 40"
definition timeColumnWidth :: int where "timeColumnWidth = 100"
definition rightX :: int where "rightX = 240"

definition DAY_NAMES :: "string list" where
  "DAY_NAMES = [''SUNDAY'', ''MONDAY'', ''TUESDAY'', ''WEDNESDAY'', ''THURSDAY'', ''FRIDAY'',
                ''SATURDAY'']"

definition monthNames :: "string list" where
  "monthNames = [''JAN'', ''FEB'', ''MAR'', ''APR'', ''MAY'', ''JUN'', ''JUL'', ''AUG'', ''SEP'',
                 ''OCT'', ''NOV'', ''DEC'']"

text \<open>An array element inside a template literal; a missing element prints as \<open>undefined\<close>.\<close>

definition element_text :: "string list \<Rightarrow> nat \<Rightarrow> jsstring" where
  "element_text xs i = js (if i < length xs then xs ! i else ''undefined'')"

subsection \<open>Sections of the page\<close>

definition weather_band :: "int \<Rightarrow> WeatherData \<Rightarrow> cmd list" where
  "weather_band width weather =
     (let tempStr = show_int (temperature weather);
          tempWidth = getTextWidth tempStr 10;
          hiLoStr = js ''H:'' @ show_int (temperatureHigh weather) @ js '' L:''
                    @ show_int (temperatureLow weather)
      in [Text MARGIN 30 tempStr INK_BLACK 10,
          Text (MARGIN + tempWidth) 30 (js [CHR 0xB0]) INK_BLACK 4,
          WeatherIcon rightX 20 (conditionCode weather),
          Text (rightX + 56) 28 (js ''BROOKLYN NY'') INK_BLACK 2,
          Text (rightX + 56) 60 (condition weather) DARK_GRAY 2,
          Text (rightX + 56) 92 hiLoStr DARK_GRAY 2,
          HLine weatherSectionHeight MARGIN (width - MARGIN) INK_BLACK 3])"

definition date_header :: "int \<Rightarrow> Date \<Rightarrow> cmd list" where
  "date_header width now =
     (let dateStr = element_text DAY_NAMES (getDay now) @ js '', ''
                    @ element_text monthNames (getMonth now) @ js '' ''
                    @ show_int (getDate now)
      in [CenteredText (weatherSectionHeight + 20) dateStr INK_BLACK 3,
          HLine dateSectionEnd MARGIN (width - MARGIN) INK_BLACK 2])"

definition footer :: "int \<Rightarrow> int \<Rightarrow> Date \<Rightarrow> cmd list" where
  "footer width height generatedAt =
     (let footerY = height - 30;
          timeStr = toLocaleTimeString generatedAt;
          genStr = js ''Generated '' @ timeStr
      in [HLine (footerY - 10) MARGIN (width - MARGIN) LIGHT_GRAY 1,
          RightAlignedText footerY genStr DARK_GRAY 1 MARGIN])"

subsection \<open>The agenda loops\<close>

text \<open>The overflow marker \<open>+N more...\<close>.\<close>

definition more_marker :: "int \<Rightarrow> jsstring" where
  "more_marker remaining = js ''+'' @ show_int remaining @ js '' more...''"

text \<open>The body of the event loop for an event that fits: time, title, divider.\<close>

definition event_row :: "int \<Rightarrow> int \<Rightarrow> bool \<Rightarrow> CalendarEvent list \<Rightarrow> nat \<Rightarrow> int \<Rightarrow> cmd list" where
  "event_row width maxContentY isToday evs eventIndex eventY =
     (let event = evs ! eventIndex;
          eventColor = (if isToday then INK_BLACK else DARK_GRAY);
          contentWidth = width - MARGIN * 2;
          maxTitleWidth = contentWidth - timeColumnWidth - 10;
          t = truncateTitle maxTitleWidth (title event)
      in [Text MARGIN eventY (time event) eventColor 2,
          Text (MARGIN + timeColumnWidth) eventY t eventColor 2]
         @ (if int eventIndex < int (length evs) - 1
               \<and> (eventY + 26) + eventRowHeight \<le> maxContentY
            then [HLine (eventY + 26) MARGIN (width - MARGIN) LIGHT_GRAY 1] else []))"

text \<open>
  The loop over the events of one day, from \<open>eventIndex\<close> and cursor \<open>eventY\<close>: the calls
  made and the cursor at the end of the loop. The \<open>break\<close> after the marker leaves this
  loop only.
\<close>

function events_loop ::
  "int \<Rightarrow> int \<Rightarrow> bool \<Rightarrow> CalendarEvent list \<Rightarrow> nat \<Rightarrow> int \<Rightarrow> cmd list \<times> int" where
  "events_loop width maxContentY isToday evs eventIndex eventY =
     (if eventIndex < length evs then
        (if eventY + 30 > maxContentY then
           (let remaining = int (length evs) - int eventIndex
            in if remaining > 0
               then ([Text MARGIN eventY (more_marker remaining) LIGHT_GRAY 2], eventY + 30)
               else ([], eventY))
         else
           (let r = events_loop width maxContentY isToday evs (eventIndex + 1)
                      (eventY + 26 + (eventRowHeight - 26))
            in (event_row width maxContentY isToday evs eventIndex eventY @ fst r, snd r)))
      else ([], eventY))"
  by pat_completeness auto
termination
  by (relation "measure (\<lambda>(w, m, td, evs, i, y). length evs - i)") auto

declare events_loop.simps [simp del]

text \<open>The loop over the days, from \<open>dayIndex\<close> and cursor \<open>eventY\<close>.\<close>

function days_loop :: "int \<Rightarrow> int \<Rightarrow> DayEvents list \<Rightarrow> nat \<Rightarrow> int \<Rightarrow> cmd list" where
  "days_loop width maxContentY days dayIndex eventY =
     (if dayIndex < length days then
        (let day = days ! dayIndex;
             isFirstDay = (dayIndex = 0);
             isToday = (label day = js ''TODAY'');
             minSpaceNeeded = dayHeaderHeight + eventRowHeight
         in if eventY + minSpaceNeeded > maxContentY then []
            else
              (let sep = (if \<not> isFirstDay
                          then [DashedHLine eventY MARGIN (width - MARGIN) DARK_GRAY 6 4]
                          else []);
                   y1 = (if \<not> isFirstDay then eventY + 15 else eventY);
                   labelColor = (if isToday then INK_BLACK else DARK_GRAY);
                   hdr = [Text MARGIN y1 (label day) labelColor 2];
                   y2 = y1 + (dayHeaderHeight - 5)
               in if length (events day) = 0
                  then sep @ hdr
                       @ [Text (MARGIN + timeColumnWidth) y2 (js ''No events'') LIGHT_GRAY 2]
                       @ days_loop width maxContentY days (dayIndex + 1) (y2 + eventRowHeight)
                  else
                    (let r = events_loop width maxContentY isToday (events day) 0 y2
                     in sep @ hdr @ fst r
                        @ days_loop width maxContentY days (dayIndex + 1) (snd r))))
      else [])"
  by pat_completeness auto
termination
  by (relation "measure (\<lambda>(w, m, days, i, y). length days - i)") auto

declare days_loop.simps [simp del]

definition agenda :: "int \<Rightarrow> int \<Rightarrow> DayEvents list \<Rightarrow> cmd list" where
  "agenda width height days =
     days_loop width (height - FOOTER_HEIGHT) days 0 (dateSectionEnd + 20)"

subsection \<open>renderDisplay\<close>

definition render_cmds :: "int \<Rightarrow> int \<Rightarrow> WeatherData \<Rightarrow> DayEvents list \<Rightarrow> Date \<Rightarrow> cmd list" where
  "render_cmds width height weather days generatedAt =
     weather_band width weather @ date_header width generatedAt
     @ agenda width height days @ footer width height generatedAt"

text \<open>
  \<open>new Uint8Array(width * height)\<close> throws a \<open>RangeError\<close> for a negative length. The
  result is \<open>None\<close> when a primitive never returns, \<open>Some (Inl e)\<close> when the call throws
  and \<open>Some (Inr pixels)\<close> when it returns the buffer.
\<close>

definition renderDisplay ::
  "math \<Rightarrow> int \<Rightarrow> int \<Rightarrow> WeatherData \<Rightarrow> DayEvents list \<Rightarrow> Date \<Rightarrow> (error + byte list) option" where
  "renderDisplay M width height weather days generatedAt =
     (if width * height < 0 then Some (Inl RangeError)
      else
        (let pixels = replicate (nat (width * height)) PAPER_WHITE
         in case run M width (render_cmds width height weather days generatedAt) of
              None \<Rightarrow> None
            | Some ss \<Rightarrow> Some (Inr (paint pixels ss))))"

section \<open>Bitmap encoder\<close>

text \<open>\<open>DataView\<close> stores with \<open>littleEndian = true\<close>; the value is taken modulo the field size.\<close>

definition setUint16 :: "byte list \<Rightarrow> nat \<Rightarrow> 16 word \<Rightarrow> byte list" where
  "setUint16 buffer off v = buffer[off := ucast v, off + 1 := ucast (drop_bit 8 v)]"

definition setUint32 :: "byte list \<Rightarrow> nat \<Rightarrow> 32 word \<Rightarrow> byte list" where
  "setUint32 buffer off v =
     buffer[off := ucast v, off + 1 := ucast (drop_bit 8 v),
            off + 2 := ucast (drop_bit 16 v), off + 3 := ucast (drop_bit 24 v)]"

text \<open>Reading the four bytes of a little-endian field back.\<close>

definition getUint32 :: "byte list \<Rightarrow> nat \<Rightarrow> 32 word" where
  "getUint32 buffer off =
     or (ucast (buffer ! off))
       (or (push_bit 8 (ucast (buffer ! (off + 1))))
         (or (push_bit 16 (ucast (buffer ! (off + 2))))
             (push_bit 24 (ucast (buffer ! (off + 3))))))"

definition getUint16 :: "byte list \<Rightarrow> nat \<Rightarrow> 16 word" where
  "getUint16 buffer off =
     or (ucast (buffer ! off)) (push_bit 8 (ucast (buffer ! (off + 1))))"

text \<open>
  \<open>pixelData[i]\<close>: an index outside the array reads \<open>undefined\<close>, which a \<open>Uint8Array\<close>
  stores as 0.
\<close>

definition read_pixel :: "byte list \<Rightarrow> int \<Rightarrow> byte" where
  "read_pixel pixelData i =
     (if 0 \<le> i \<and> i < int (length pixelData) then pixelData ! nat i else 0)"

definition bmp_headers :: "int \<Rightarrow> int \<Rightarrow> int \<Rightarrow> int \<Rightarrow> byte list \<Rightarrow> byte list" where
  "bmp_headers width height fileSize pixelDataSize buffer0 =
     (let headerSize = 14; dibHeaderSize = 40; paletteSize = 256 * 4;
          buffer = buffer0[0 := 0x42, 1 := 0x4D];
          buffer = setUint32 buffer 2 (word_of_int fileSize);
          buffer = setUint32 buffer 6 0;
          buffer = setUint32 buffer 10 (word_of_int (headerSize + dibHeaderSize + paletteSize));
          buffer = setUint32 buffer 14 (word_of_int dibHeaderSize);
          buffer = setUint32 buffer 18 (word_of_int width);
          buffer = setUint32 buffer 22 (word_of_int (- height));
          buffer = setUint16 buffer 26 1;
          buffer = setUint16 buffer 28 8;
          buffer = setUint32 buffer 30 0;
          buffer = setUint32 buffer 34 (word_of_int pixelDataSize);
          buffer = setUint32 buffer 38 2835;
          buffer = setUint32 buffer 42 2835;
          buffer = setUint32 buffer 46 256;
          buffer = setUint32 buffer 50 256
      in buffer)"

definition bmp_palette :: "byte list \<Rightarrow> byte list" where
  "bmp_palette buffer0 =
     (let paletteOffset = 14 + 40
      in foldl (\<lambda>buffer i.
           buffer[paletteOffset + i * 4 + 0 := word_of_nat i,
                  paletteOffset + i * 4 + 1 := word_of_nat i,
                  paletteOffset + i * 4 + 2 := word_of_nat i,
                  paletteOffset + i * 4 + 3 := 0])
         buffer0 [0 ..< 256])"

definition bmp_pixels :: "int \<Rightarrow> int \<Rightarrow> int \<Rightarrow> byte list \<Rightarrow> byte list \<Rightarrow> byte list" where
  "bmp_pixels width height paddedRowSize pixelData buffer0 =
     (let pixelOffset = 14 + 40 + 256 * 4
      in foldl (\<lambda>buffer y.
           foldl (\<lambda>buffer x.
             put buffer (pixelOffset + y * paddedRowSize + x, read_pixel pixelData (y * width + x)))
           buffer [0 .. width - 1])
         buffer0 [0 .. height - 1])"

text \<open>
  \<open>Math.ceil(width / 4) * 4\<close> on integers. \<open>new Uint8Array(fileSize)\<close> throws for a negative
  size and the \<open>DataView\<close> stores of the two headers throw when the buffer is shorter than
  the headers.
\<close>

definition createBMP :: "int \<Rightarrow> int \<Rightarrow> byte list \<Rightarrow> error + byte list" where
  "createBMP width height pixelData =
     (let paddedRowSize = (- ((- width) div 4)) * 4;
          pixelDataSize = paddedRowSize * height;
          paletteSize = 256 * 4;
          headerSize = 14;
          dibHeaderSize = 40;
          fileSize = headerSize + dibHeaderSize + paletteSize + pixelDataSize
      in if fileSize < headerSize + dibHeaderSize then Inl RangeError
         else Inr (bmp_pixels width height paddedRowSize pixelData
                     (bmp_palette
                       (bmp_headers width height fileSize pixelDataSize
                         (replicate (nat fileSize) 0)))))"

section \<open>Request handler\<close>

text \<open>
  \<open>parseInt(s)\<close> without a radix: leading white space is skipped, a sign is read, a
  \<open>0x\<close> prefix selects radix 16, and the longest prefix of digits is the value; with no
  digit the result is \<open>NaN\<close>, here \<open>None\<close>. A missing variable is \<open>undefined\<close>, which
  \<open>parseInt\<close> reads as the string \<open>undefined\<close>.
\<close>

definition is_white :: "16 word \<Rightarrow> bool" where
  "is_white u =
     (u \<in> set [0x09, 0x0A, 0x0B, 0x0C, 0x0D, 0x20, 0xA0, 0x1680, 0x2028, 0x2029, 0x202F,
              0x205F, 0x3000, 0xFEFF]
      \<or> (0x2000 \<le> u \<and> u \<le> 0x200A))"

definition digit_value :: "16 word \<Rightarrow> nat option" where
  "digit_value u =
     (if 0x30 \<le> u \<and> u \<le> 0x39 then Some (unat u - 0x30)
      else if 0x61 \<le> u \<and> u \<le> 0x7A then Some (unat u - 0x61 + 10)
      else if 0x41 \<le> u \<and> u \<le> 0x5A then Some (unat u - 0x41 + 10)
      else None)"

fun parse_digits :: "nat \<Rightarrow> jsstring \<Rightarrow> nat option \<Rightarrow> nat option" where
  "parse_digits R [] acc = acc"
| "parse_digits R (u # us) acc =
     (case digit_value u of
        None \<Rightarrow> acc
      | Some d \<Rightarrow>
          if d < R
          then parse_digits R us (Some (R * (case acc of None \<Rightarrow> 0 | Some a \<Rightarrow> a) + d))
          else acc)"

definition parseInt :: "jsstring option \<Rightarrow> int option" where
  "parseInt arg =
     (let inputString = (case arg of None \<Rightarrow> js ''undefined'' | Some s \<Rightarrow> s);
          S = dropWhile is_white inputString;
          sign = (if S \<noteq> [] \<and> hd S = 0x2D then - 1 else 1);
          S = (if S \<noteq> [] \<and> (hd S = 0x2B \<or> hd S = 0x2D) then tl S else S);
          hex = (length S \<ge> 2 \<and> hd S = 0x30 \<and> (S ! 1 = 0x78 \<or> S ! 1 = 0x58));
          R = (if hex then 16 else 10);
          S = (if hex then drop 2 S else S)
      in map_option (\<lambda>n. sign * int n) (parse_digits R S None))"

text \<open>\<open>v || d\<close> on a number: \<open>NaN\<close> and 0 are falsy.\<close>

definition or_default :: "int option \<Rightarrow> int \<Rightarrow> int" where
  "or_default v d = (case v of None \<Rightarrow> d | Some n \<Rightarrow> if n = 0 then d else n)"

record Env =
  DISPLAY_WIDTH :: "jsstring option"
  DISPLAY_HEIGHT :: "jsstring option"

definition display_size :: "Env \<Rightarrow> int \<times> int" where
  "display_size env =
     (or_default (parseInt (DISPLAY_WIDTH env)) 480,
      or_default (parseInt (DISPLAY_HEIGHT env)) 800)"

text \<open>
  The handler, with the fetched weather, days and the render time as inputs: the size
  from the environment, the render, the encoding.
\<close>

definition fetch ::
  "math \<Rightarrow> Env \<Rightarrow> WeatherData \<Rightarrow> DayEvents list \<Rightarrow> Date \<Rightarrow> (error + byte list) option" where
  "fetch M env weather days generatedAt =
     (case display_size env of (width, height) \<Rightarrow>
        (case renderDisplay M width height weather days generatedAt of
           None \<Rightarrow> None
         | Some (Inl e) \<Rightarrow> Some (Inl e)
         | Some (Inr pixels) \<Rightarrow> Some (createBMP width height pixels)))"

section \<open>Notions used in the statements\<close>

text \<open>
  The four gray levels; the colour argument of a call; a dashed line with positive dash
  and gap lengths; a list of stores whose values lie in a set of colours. Then the inputs
  of the examples: the mock agenda and the fallback weather of the source, and one value
  of the floating-point parameters (every sample rounds to the centre of its arc).
\<close>

definition is_level :: "byte \<Rightarrow> bool" where
  "is_level b = (b = INK_BLACK \<or> b = DARK_GRAY \<or> b = LIGHT_GRAY \<or> b = PAPER_WHITE)"

fun cmd_color :: "cmd \<Rightarrow> byte" where
  "cmd_color (Text x y t color scale) = color"
| "cmd_color (CenteredText y t color scale) = color"
| "cmd_color (RightAlignedText y t color scale margin) = color"
| "cmd_color (HLine y x1 x2 color thickness) = color"
| "cmd_color (DashedHLine y x1 x2 color dashLen gapLen) = color"
| "cmd_color (WeatherIcon x y code) = INK_BLACK"

fun dashes_ok :: "cmd \<Rightarrow> bool" where
  "dashes_ok (DashedHLine y x1 x2 color dashLen gapLen) = (0 < dashLen \<and> 0 < gapLen)"
| "dashes_ok c = True"

definition cmd_fine :: "cmd \<Rightarrow> bool" where
  "cmd_fine c = (dashes_ok c \<and> is_level (cmd_color c))"

definition getMockEvents :: "int \<Rightarrow> DayEvents list" where
  "getMockEvents now =
     [\<lparr>label = js ''TODAY'', date = now,
       events = [\<lparr>time = js ''09:00'', title = js ''Team Standup'', isAllDay = False\<rparr>,
                 \<lparr>time = js ''11:30'', title = js ''Design Review'', isAllDay = False\<rparr>,
                 \<lparr>time = js ''14:00'', title = js ''Deep Work Block'', isAllDay = False\<rparr>]\<rparr>,
      \<lparr>label = js ''TOMORROW'', date = now + 86400000,
       events = [\<lparr>time = js ''10:00'', title = js ''Client Call'', isAllDay = False\<rparr>]\<rparr>]"

definition unavailableWeather :: WeatherData where
  "unavailableWeather =
     \<lparr>temperature = 0, temperatureHigh = 0, temperatureLow = 0,
      condition = js ''Unavailable'', conditionCode = - 1\<rparr>"

definition centre_math :: math where
  "centre_math =
     \<lparr>round_polar = (\<lambda>c r f deg. c),
      round_arc = (\<lambda>a b p h q f deg. a),
      round_lin = (\<lambda>a b p. a)\<rparr>"

definition colored :: "byte set \<Rightarrow> store list \<Rightarrow> bool" where
  "colored C ss = (snd ` set ss \<subseteq> C)"

text \<open>A day of fifty events, for the overflow example.\<close>

definition busyDay :: DayEvents where
  "busyDay =
     \<lparr>label = js ''TODAY'', date = 0,
      events = replicate 50 \<lparr>time = js ''09:00'', title = js ''Team Standup'', isAllDay = False\<rparr>\<rparr>"


text \<open>
  The row of a store: in a buffer of width \<open>w\<close> the index \<open>i\<close> lies in row \<open>i div w\<close>.
  \<open>rows_in w lo hi\<close> says that every store of a list lies in a row from \<open>lo\<close> up to, not
  including, \<open>hi\<close>. \<open>math_ok\<close> is what the row bounds need of the floating-point
  parameters: rounding a value between two integers gives a result between them, with
  a cosine or sine between -1 and 1 and a decimal factor between 0 and 1.
\<close>

definition rows_in :: "int \<Rightarrow> int \<Rightarrow> int \<Rightarrow> store list \<Rightarrow> bool" where
  "rows_in w lo hi ss = (\<forall>s \<in> set ss. lo \<le> fst s div w \<and> fst s div w < hi)"

definition unit_decimal :: "decimal \<Rightarrow> bool" where
  "unit_decimal p = (0 \<le> fst p \<and> fst p \<le> snd p \<and> 0 < snd p)"

definition math_ok :: "math \<Rightarrow> bool" where
  "math_ok M =
     ((\<forall>c r f deg. 0 \<le> r \<longrightarrow>
         c - r \<le> round_polar M c r f deg \<and> round_polar M c r f deg \<le> c + r)
      \<and> (\<forall>a b p h q f deg. 0 \<le> b \<and> 0 \<le> h \<and> unit_decimal p \<and> unit_decimal q \<longrightarrow>
           a - h \<le> round_arc M a b p h q f deg \<and> round_arc M a b p h q f deg \<le> a + b + h)
      \<and> (\<forall>a b p. 0 \<le> b \<and> unit_decimal p \<longrightarrow>
           a \<le> round_lin M a b p \<and> round_lin M a b p \<le> a + b))"


text \<open>
  \<open>cmd_within w lo hi c\<close>: the arguments of the call \<open>c\<close> keep its stores in the rows from
  \<open>lo\<close> up to \<open>hi\<close> of a buffer of width \<open>w\<close>.
\<close>

fun cmd_within :: "int \<Rightarrow> int \<Rightarrow> int \<Rightarrow> cmd \<Rightarrow> bool" where
  "cmd_within w lo hi (Text x y t color scale) = (lo \<le> max 0 y \<and> y + 8 * scale \<le> hi)"
| "cmd_within w lo hi (CenteredText y t color scale) = (lo \<le> max 0 y \<and> y + 8 * scale \<le> hi)"
| "cmd_within w lo hi (RightAlignedText y t color scale margin) =
     (lo \<le> max 0 y \<and> y + 8 * scale \<le> hi)"
| "cmd_within w lo hi (HLine y x1 x2 color thickness) = (lo \<le> max 0 y \<and> y + thickness \<le> hi)"
| "cmd_within w lo hi (DashedHLine y x1 x2 color dashLen gapLen) =
     (0 < dashLen \<and> 0 < gapLen \<and> 0 \<le> x1 \<and> x2 \<le> w \<and> lo \<le> y \<and> y < hi)"
| "cmd_within w lo hi (WeatherIcon x y code) =
     (0 \<le> x \<and> x + 36 < w \<and> 0 \<le> y \<and> lo \<le> 0 \<and> y + 57 \<le> hi)"


section \<open>Stores into the buffer\<close>

lemma length_put [simp]: "length (put b s) = length b"
  by (simp add: put_def split: prod.splits)

lemma length_paint [simp]: "length (paint b ss) = length b"
  unfolding paint_def by (induction ss arbitrary: b) simp_all

lemma put_nth_other: "fst s \<noteq> int j \<Longrightarrow> put b s ! j = b ! j"
  by (auto simp: put_def split: prod.splits)

lemma paint_nth_other: "\<forall>s \<in> set ss. fst s \<noteq> int j \<Longrightarrow> paint b ss ! j = b ! j"
  unfolding paint_def by (induction ss arbitrary: b) (simp_all add: put_nth_other)

section \<open>Properties of the icon dispatch\<close>

text \<open>
  Claim C4. For every integer condition code the dispatch of \<open>drawWeatherIcon\<close> selects the
  sun for 0 to 1, the cloud for 2 to 3, fog for 45 to 48, rain for 51 to 67 and 80 to 82,
  snow for 71 to 77 and 85 to 86, the thunderstorm for every code from 95 on, and the
  unknown icon for every other code, the negative sentinel included. The dispatch is a
  total function, so no code makes it fail. (The unknown branch draws the text \<open>?\<close>, for
  which the font has no glyph.)
\<close>

theorem iconFor_ranges:
  "(iconFor code = Sun \<longleftrightarrow> code \<in> {0..1})
   \<and> (iconFor code = Cloud \<longleftrightarrow> code \<in> {2..3})
   \<and> (iconFor code = Fog \<longleftrightarrow> code \<in> {45..48})
   \<and> (iconFor code = Rain \<longleftrightarrow> code \<in> {51..67} \<union> {80..82})
   \<and> (iconFor code = Snow \<longleftrightarrow> code \<in> {71..77} \<union> {85..86})
   \<and> (iconFor code = Thunderstorm \<longleftrightarrow> 95 \<le> code)
   \<and> (iconFor code = Unknown \<longleftrightarrow>
        code \<notin> {0..3} \<union> {45..48} \<union> {51..67} \<union> {71..77} \<union> {80..82} \<union> {85..86} \<union> {95..})"
  by (auto simp: iconFor_def)

theorem iconFor_ranges_witness:
  "iconFor (- 1) = Unknown \<and> iconFor 61 = Rain \<and> iconFor 99 = Thunderstorm"
  using iconFor_ranges [of "- 1"] iconFor_ranges [of 61] iconFor_ranges [of 99] by simp

section \<open>Properties of text measurement and drawing\<close>

lemma drawText_loop_cursor:
  "snd (drawText_loop w x y chs c s) = x + 8 * s * int (length chs)"
  by (induction chs arbitrary: x) (simp_all add: Let_def algebra_simps)

lemma drawText_loop_stores:
  "fst (drawText_loop w x y chs c s) =
     concat (map (\<lambda>k. drawChar w (x + 8 * s * int k) y (chs ! k) c s) [0 ..< length chs])"
proof (induction chs arbitrary: x)
  case Nil
  then show ?case by simp
next
  case (Cons ch chs)
  have "map (\<lambda>k. drawChar w (x + 8 * s * int k) y ((ch # chs) ! k) c s) [0 ..< Suc (length chs)]
      = drawChar w x y ch c s
        # map (\<lambda>k. drawChar w (x + 8 * s + 8 * s * int k) y (chs ! k) c s) [0 ..< length chs]"
    by (simp add: map_upt_Suc algebra_simps del: upt_Suc)
  then show ?case using Cons.IH [of "x + 8 * s"] by (simp add: Let_def)
qed

lemma codePoints_no_high:
  "\<forall>u \<in> set t. \<not> is_high_surrogate u \<Longrightarrow> codePoints t = map (\<lambda>u. [u]) t"
  by (induction t rule: codePoints.induct) auto




section \<open>Properties of the title truncation\<close>

lemma trunc_step:
  assumes "truncCond m t"
  shows "4 \<le> length t" and "length (truncBody t) = length t - 1"
  using assms by (auto simp: truncCond_def truncBody_def js_slice_def js_def)

text \<open>
  Claim C7. For every title the truncation loop ends: there is a number \<open>n\<close> of
  iterations, at most the length of the title minus 3, after which the loop condition
  is false, and the result of the loop is the title after \<open>n\<close> runs of the loop body. At
  each of these iterations the string has at least 4 code units, so \<open>slice(0, -4)\<close> never
  reaches below the start of the string: every iteration shortens the string by exactly
  one, and the result is \<open>n\<close> shorter than the title.
\<close>

theorem truncation_terminates:
  "\<exists>n. n \<le> length t - 3
       \<and> truncateTitle m t = (truncBody ^^ n) t
       \<and> \<not> truncCond m ((truncBody ^^ n) t)
       \<and> length (truncateTitle m t) + n = length t
       \<and> (\<forall>k<n. truncCond m ((truncBody ^^ k) t) \<and> 4 \<le> length ((truncBody ^^ k) t))"
proof (induction m t rule: truncateTitle.induct)
  case (1 m t)
  show ?case
  proof (cases "truncCond m t")
    case False
    then have "truncateTitle m t = t" by (simp add: truncateTitle.simps)
    with False show ?thesis by (intro exI [of _ 0]) simp
  next
    case True
    from "1" [OF True] obtain n where n:
      "n \<le> length (truncBody t) - 3"
      "truncateTitle m (truncBody t) = (truncBody ^^ n) (truncBody t)"
      "\<not> truncCond m ((truncBody ^^ n) (truncBody t))"
      "length (truncateTitle m (truncBody t)) + n = length (truncBody t)"
      "\<forall>k<n. truncCond m ((truncBody ^^ k) (truncBody t))
             \<and> 4 \<le> length ((truncBody ^^ k) (truncBody t))"
      by blast
    have eq: "truncateTitle m t = truncateTitle m (truncBody t)"
      using True by (subst truncateTitle.simps) simp
    have steps: "\<forall>k<Suc n. truncCond m ((truncBody ^^ k) t) \<and> 4 \<le> length ((truncBody ^^ k) t)"
    proof (intro allI impI)
      fix k assume "k < Suc n"
      show "truncCond m ((truncBody ^^ k) t) \<and> 4 \<le> length ((truncBody ^^ k) t)"
      proof (cases k)
        case 0
        then show ?thesis using True trunc_step(1) [OF True] by simp
      next
        case (Suc j)
        then have "j < n" using \<open>k < Suc n\<close> by simp
        then show ?thesis using n(5) Suc by (simp add: funpow_swap1)
      qed
    qed
    have a: "Suc n \<le> length t - 3"
      using n(1) trunc_step [OF True] by arith
    have b: "length (truncateTitle m t) + Suc n = length t"
      using n(4) eq trunc_step [OF True] by arith
    have c: "truncateTitle m t = (truncBody ^^ Suc n) t"
      using n(2) eq by (simp add: funpow_swap1)
    have d: "\<not> truncCond m ((truncBody ^^ Suc n) t)"
      using n(3) by (simp add: funpow_swap1)
    show ?thesis
      using a b c d steps by blast
  qed
qed

theorem truncation_terminates_witness:
  "length (truncateTitle 322 (js ''Quarterly planning review with team'')) \<le> 35"
proof -
  have l: "length (js ''Quarterly planning review with team'') = 35"
    by (simp add: js_def)
  from truncation_terminates [of "js ''Quarterly planning review with team''" 322]
  obtain n where
    "length (truncateTitle 322 (js ''Quarterly planning review with team'')) + n
       = length (js ''Quarterly planning review with team'')"
    by blast
  with l show ?thesis by simp
qed

text \<open>
  Claim C8. Truncation is idempotent: for every title whose truncated result measures
  at most the available column width, truncating that result again returns it
  unchanged.
\<close>

theorem truncation_idempotent:
  "getTextWidth (truncateTitle m t) 2 \<le> m \<Longrightarrow>
     truncateTitle m (truncateTitle m t) = truncateTitle m t"
  by (subst truncateTitle.simps) (simp add: truncCond_def)

theorem truncation_idempotent_witness:
  "getTextWidth (truncateTitle 322 (js ''Quarterly planning review with team'')) 2 \<le> 322
   \<and> truncateTitle 322 (truncateTitle 322 (js ''Quarterly planning review with team''))
     = truncateTitle 322 (js ''Quarterly planning review with team'')"
proof -
  have h: "getTextWidth (truncateTitle 322 (js ''Quarterly planning review with team'')) 2 \<le> 322"
    by code_simp
  show ?thesis using h truncation_idempotent [OF h] by simp
qed

section \<open>Properties of the canvas size\<close>

lemma or_default_nonzero: "d \<noteq> 0 \<Longrightarrow> or_default v d \<noteq> 0"
  by (simp add: or_default_def split: option.splits)

lemma display_size_nonzero: "fst (display_size env) * snd (display_size env) \<noteq> 0"
  by (simp add: display_size_def or_default_nonzero)

lemma display_size_default:
  "parseInt (DISPLAY_WIDTH env) \<in> {None, Some 0} \<Longrightarrow> fst (display_size env) = 480"
  "parseInt (DISPLAY_HEIGHT env) \<in> {None, Some 0} \<Longrightarrow> snd (display_size env) = 800"
  by (auto simp: display_size_def or_default_def)

text \<open>
  Claim C6. A canvas dimension that is missing or not positive makes the render use the
  default size, and no zero-sized buffer is built. A missing, unreadable or zero value
  gives the default and the buffer is never of size zero, but a negative value is
  taken as it is: with \<open>DISPLAY_WIDTH = "-5"\<close> and no \<open>DISPLAY_HEIGHT\<close> the size is
  \<open>-5\<close> by \<open>800\<close>, and the allocation of the pixel buffer throws.
\<close>

theorem negative_size_not_defaulted:
  "display_size \<lparr>DISPLAY_WIDTH = Some (js ''-5''), DISPLAY_HEIGHT = None\<rparr> = (- 5, 800)
   \<and> fetch M \<lparr>DISPLAY_WIDTH = Some (js ''-5''), DISPLAY_HEIGHT = None\<rparr> weather days generatedAt
       = Some (Inl RangeError)"
proof -
  have ds: "display_size \<lparr>DISPLAY_WIDTH = Some (js ''-5''), DISPLAY_HEIGHT = None\<rparr> = (- 5, 800)"
    by code_simp
  show ?thesis by (simp add: ds fetch_def renderDisplay_def)
qed

section \<open>Properties of the bitmap encoder\<close>

lemma le32_roundtrip:
  "or (ucast (ucast v :: 8 word))
     (or (push_bit 8 (ucast (ucast (drop_bit 8 v) :: 8 word)))
       (or (push_bit 16 (ucast (ucast (drop_bit 16 v) :: 8 word)))
           (push_bit 24 (ucast (ucast (drop_bit 24 v) :: 8 word))))) = (v :: 32 word)"
  (is "?l = _")
proof (rule bit_word_eqI)
  fix n assume "n < LENGTH(32)"
  then show "bit ?l n = bit v n"
    by (cases "n < 8"; cases "n < 16"; cases "n < 24") (auto simp: bit_simps)
qed

lemma le16_roundtrip:
  "or (ucast (ucast v :: 8 word)) (push_bit 8 (ucast (ucast (drop_bit 8 v) :: 8 word)))
     = (v :: 16 word)"
  (is "?l = _")
proof (rule bit_word_eqI)
  fix n assume "n < LENGTH(16)"
  then show "bit ?l n = bit v n"
    by (cases "n < 8") (auto simp: bit_simps)
qed

lemma getUint32_setUint32:
  "off + 3 < length buffer \<Longrightarrow> getUint32 (setUint32 buffer off v) off = v"
  by (simp add: getUint32_def setUint32_def le32_roundtrip)

lemma getUint16_setUint16:
  "off + 1 < length buffer \<Longrightarrow> getUint16 (setUint16 buffer off v) off = v"
  by (simp add: getUint16_def setUint16_def le16_roundtrip)

lemma length_setUint32 [simp]: "length (setUint32 b off v) = length b"
  by (simp add: setUint32_def)

lemma length_setUint16 [simp]: "length (setUint16 b off v) = length b"
  by (simp add: setUint16_def)

lemma length_bmp_headers [simp]: "length (bmp_headers w h fs ps b) = length b"
  by (simp add: bmp_headers_def Let_def)

lemma bmp_headers_fields:
  assumes "54 \<le> length b"
  shows "getUint32 (bmp_headers w h fs ps b) 22 = word_of_int (- h)"
    and "getUint16 (bmp_headers w h fs ps b) 28 = 8"
    and "getUint32 (bmp_headers w h fs ps b) 30 = 0"
  using assms
  by (simp_all add: bmp_headers_def Let_def getUint32_def getUint16_def setUint32_def
        setUint16_def le32_roundtrip le16_roundtrip)

lemma getUint32_cong:
  "a ! off = b ! off \<Longrightarrow> a ! (off + 1) = b ! (off + 1) \<Longrightarrow> a ! (off + 2) = b ! (off + 2)
     \<Longrightarrow> a ! (off + 3) = b ! (off + 3) \<Longrightarrow> getUint32 a off = getUint32 b off"
  by (simp add: getUint32_def)

lemma getUint16_cong:
  "a ! off = b ! off \<Longrightarrow> a ! (off + 1) = b ! (off + 1) \<Longrightarrow> getUint16 a off = getUint16 b off"
  by (simp add: getUint16_def)

lemma palette_fold:
  fixes b :: "byte list"
  defines "f \<equiv> (\<lambda>buffer i. buffer[54 + i * 4 + 0 := word_of_nat i,
                  54 + i * 4 + 1 := word_of_nat i,
                  54 + i * 4 + 2 := word_of_nat i,
                  54 + i * 4 + 3 := 0 :: byte])"
  assumes "54 + 4 * n \<le> length b"
  shows "length (foldl f b [0 ..< n]) = length b
     \<and> (\<forall>j<54. foldl f b [0 ..< n] ! j = b ! j)
     \<and> (\<forall>i<n. foldl f b [0 ..< n] ! (54 + 4 * i) = word_of_nat i
              \<and> foldl f b [0 ..< n] ! (54 + 4 * i + 1) = word_of_nat i
              \<and> foldl f b [0 ..< n] ! (54 + 4 * i + 2) = word_of_nat i
              \<and> foldl f b [0 ..< n] ! (54 + 4 * i + 3) = 0)"
  using assms(2)
proof (induction n)
  case 0
  then show ?case by simp
next
  case (Suc n)
  then have IH: "length (foldl f b [0 ..< n]) = length b"
      "\<And>j. j < 54 \<Longrightarrow> foldl f b [0 ..< n] ! j = b ! j"
      "\<And>i. i < n \<Longrightarrow> foldl f b [0 ..< n] ! (54 + 4 * i) = word_of_nat i
              \<and> foldl f b [0 ..< n] ! (54 + 4 * i + 1) = word_of_nat i
              \<and> foldl f b [0 ..< n] ! (54 + 4 * i + 2) = word_of_nat i
              \<and> foldl f b [0 ..< n] ! (54 + 4 * i + 3) = 0"
    by simp_all
  have step: "foldl f b [0 ..< Suc n] = f (foldl f b [0 ..< n]) n"
    by simp
  have len: "58 + 4 * n \<le> length (foldl f b [0 ..< n])"
    using IH(1) Suc.prems by simp
  show ?case
  proof (intro conjI allI impI)
    show "length (foldl f b [0 ..< Suc n]) = length b"
      unfolding step using IH(1) by (simp add: f_def)
  next
    fix j :: nat assume "j < 54"
    then show "foldl f b [0 ..< Suc n] ! j = b ! j"
      unfolding step using IH(2) [of j] by (simp add: f_def)
  next
    fix i assume "i < Suc n"
    then consider "i < n" | "i = n" by linarith
    then have "foldl f b [0 ..< Suc n] ! (54 + 4 * i) = word_of_nat i
              \<and> foldl f b [0 ..< Suc n] ! (54 + 4 * i + 1) = word_of_nat i
              \<and> foldl f b [0 ..< Suc n] ! (54 + 4 * i + 2) = word_of_nat i
              \<and> foldl f b [0 ..< Suc n] ! (54 + 4 * i + 3) = 0"
    proof cases
      case 1
      then show ?thesis unfolding step using IH(3) [of i] by (simp add: f_def nth_list_update)
    next
      case 2
      then show ?thesis unfolding step using len by (simp add: f_def nth_list_update)
    qed
    then show "foldl f b [0 ..< Suc n] ! (54 + 4 * i) = word_of_nat i"
      "foldl f b [0 ..< Suc n] ! (54 + 4 * i + 1) = word_of_nat i"
      "foldl f b [0 ..< Suc n] ! (54 + 4 * i + 2) = word_of_nat i"
      "foldl f b [0 ..< Suc n] ! (54 + 4 * i + 3) = 0"
      by simp_all
  qed
qed

lemma bmp_palette_props:
  assumes "1078 \<le> length b"
  shows "length (bmp_palette b) = length b"
    and "j < 54 \<Longrightarrow> bmp_palette b ! j = b ! j"
    and "i < 256 \<Longrightarrow> bmp_palette b ! (54 + 4 * i) = word_of_nat i
              \<and> bmp_palette b ! (54 + 4 * i + 1) = word_of_nat i
              \<and> bmp_palette b ! (54 + 4 * i + 2) = word_of_nat i
              \<and> bmp_palette b ! (54 + 4 * i + 3) = 0"
  using palette_fold [of 256 b] assms by (simp_all add: bmp_palette_def)

lemma foldl_concat: "foldl f a (concat xss) = foldl (foldl f) a xss"
  by (induction xss arbitrary: a) simp_all

lemma bmp_pixels_paint:
  "bmp_pixels w h p px b =
     paint b (concat (map (\<lambda>y. map (\<lambda>x. (14 + 40 + 256 * 4 + y * p + x, read_pixel px (y * w + x)))
                                  [0 .. w - 1]) [0 .. h - 1]))"
  by (simp add: bmp_pixels_def paint_def foldl_concat foldl_map Let_def)

lemma bmp_pixels_props:
  assumes "p = (- ((- w) div 4)) * 4"
  shows "length (bmp_pixels w h p px b) = length b"
    and "j < 1078 \<Longrightarrow> bmp_pixels w h p px b ! j = b ! j"
proof -
  show "length (bmp_pixels w h p px b) = length b"
    by (simp add: bmp_pixels_paint)
  assume j: "j < 1078"
  have "fst s \<noteq> int j"
    if "s \<in> set (concat (map (\<lambda>y. map (\<lambda>x. (14 + 40 + 256 * 4 + y * p + x, read_pixel px (y * w + x)))
                                  [0 .. w - 1]) [0 .. h - 1]))" for s
  proof -
    from that obtain y x where yx: "0 \<le> y" "0 \<le> x" "x \<le> w - 1" "fst s = 1078 + y * p + x"
      by auto
    then have "0 \<le> p" using assms by simp
    then have "0 \<le> y * p" using yx(1) by simp
    then show ?thesis using yx j by simp
  qed
  then have "\<forall>s \<in> set (concat (map (\<lambda>y. map (\<lambda>x. (14 + 40 + 256 * 4 + y * p + x, read_pixel px (y * w + x)))
                                  [0 .. w - 1]) [0 .. h - 1])). fst s \<noteq> int j"
    by blast
  then show "bmp_pixels w h p px b ! j = b ! j"
    unfolding bmp_pixels_paint by (rule paint_nth_other)
qed

lemma padded_size_nonneg:
  assumes "int n = w * h"
  shows "0 \<le> (- ((- w) div 4)) * 4 * h"
proof -
  define a where "a = (- ((- w) div 4)) * 4"
  have wh: "0 \<le> w * h" using assms by (metis of_nat_0_le_iff)
  have pos: "0 \<le> w \<Longrightarrow> 0 \<le> a" and neg: "w \<le> 0 \<Longrightarrow> a \<le> 0"
    by (simp_all add: a_def)
  consider "h = 0" | "0 < h" | "h < 0" by linarith
  then have "0 \<le> a * h"
  proof cases
    case 1 then show ?thesis by simp
  next
    case 2
    then have "0 \<le> w" using wh by (simp add: zero_le_mult_iff)
    then show ?thesis using 2 pos by (intro mult_nonneg_nonneg) simp_all
  next
    case 3
    then have "w \<le> 0" using wh by (simp add: zero_le_mult_iff)
    then show ?thesis using 3 neg by (intro mult_nonpos_nonpos) simp_all
  qed
  then show ?thesis by (simp add: a_def)
qed

text \<open>
  Claim C3. For every width \<open>w\<close>, height \<open>h\<close> and pixel array of length \<open>w * h\<close> the encoder
  returns a byte sequence of exactly \<open>14 + 40 + 256 * 4 + (ceil(w / 4) * 4) * h\<close> bytes. Its
  height field (bytes 22 to 25, little-endian) is the 32-bit two's complement of \<open>- h\<close>,
  which reads as the signed number \<open>- h\<close> whenever \<open>- h\<close> fits 32 bits; the bits-per-pixel
  field (bytes 28 and 29) is 8; the compression field (bytes 30 to 33) is 0; and for
  every \<open>i\<close> below 256 palette entry \<open>i\<close> is the four bytes \<open>(i, i, i, 0)\<close>.
\<close>

theorem createBMP_layout:
  assumes "int (length pixelData) = width * height"
  shows "\<exists>bmp. createBMP width height pixelData = Inr bmp
     \<and> int (length bmp) = 14 + 40 + 256 * 4 + (\<lceil>real_of_int width / 4\<rceil> * 4) * height
     \<and> getUint32 bmp 22 = word_of_int (- height)
     \<and> (- (2 ^ 31) < height \<and> height \<le> 2 ^ 31 \<longrightarrow> sint (getUint32 bmp 22) = - height)
     \<and> getUint16 bmp 28 = 8
     \<and> getUint32 bmp 30 = 0
     \<and> (\<forall>i<256. map unat [bmp ! (54 + 4 * i), bmp ! (54 + 4 * i + 1),
                            bmp ! (54 + 4 * i + 2), bmp ! (54 + 4 * i + 3)] = [i, i, i, 0])"
proof -
  define p where "p = (- ((- width) div 4)) * 4"
  define fs where "fs = 14 + 40 + 256 * 4 + p * height"
  define b0 :: "byte list" where "b0 = replicate (nat fs) 0"
  define b1 where "b1 = bmp_headers width height fs (p * height) b0"
  define b2 where "b2 = bmp_palette b1"
  define bmp where "bmp = bmp_pixels width height p pixelData b2"
  have ph: "0 \<le> p * height"
    using padded_size_nonneg [OF assms] by (simp add: p_def)
  then have fs: "1078 \<le> fs" by (simp add: fs_def)
  have res: "createBMP width height pixelData = Inr bmp"
    using fs by (simp add: createBMP_def Let_def bmp_def b2_def b1_def b0_def fs_def p_def)
  have l0: "length b0 = nat fs" by (simp add: b0_def)
  have l1: "length b1 = nat fs" by (simp add: b1_def l0)
  have l1': "1078 \<le> length b1" using l1 fs by simp
  have l2: "length b2 = nat fs" using bmp_palette_props(1) [OF l1'] l1 by (simp add: b2_def)
  have l3: "length bmp = nat fs" using bmp_pixels_props(1) [OF p_def] l2 by (simp add: bmp_def)
  have low: "bmp ! j = b1 ! j" if "j < 54" for j
    using that bmp_pixels_props(2) [OF p_def, of j height pixelData b2]
      bmp_palette_props(2) [OF l1', of j]
    by (simp add: bmp_def b2_def)
  have c: "\<lceil>real_of_int width / 4\<rceil> = - ((- width) div 4)"
    using ceiling_divide_eq_div [of width 4] by simp
  have "int (length bmp) = fs" using l3 fs by simp
  also have "fs = 14 + 40 + 256 * 4 + (\<lceil>real_of_int width / 4\<rceil> * 4) * height"
    unfolding c fs_def p_def by simp
  finally have len:
    "int (length bmp) = 14 + 40 + 256 * 4 + (\<lceil>real_of_int width / 4\<rceil> * 4) * height" .
  have b0len: "54 \<le> length b0" using l0 fs by simp
  have h22: "getUint32 bmp 22 = word_of_int (- height)"
    using getUint32_cong [of bmp 22 b1] low bmp_headers_fields(1) [OF b0len]
    by (simp add: b1_def)
  have h28: "getUint16 bmp 28 = 8"
    using getUint16_cong [of bmp 28 b1] low bmp_headers_fields(2) [OF b0len]
    by (simp add: b1_def)
  have h30: "getUint32 bmp 30 = 0"
    using getUint32_cong [of bmp 30 b1] low bmp_headers_fields(3) [OF b0len]
    by (simp add: b1_def)
  have sgn: "sint (getUint32 bmp 22) = - height" if "- (2 ^ 31) < height" "height \<le> 2 ^ 31"
  proof -
    have "sint (word_of_int (- height) :: 32 word) = signed_take_bit (LENGTH(32) - 1) (- height)"
      by (rule sint_sbintrunc')
    also have "\<dots> = - height"
      by (rule signed_take_bit_int_eq_self) (use that in simp_all)
    finally show ?thesis by (simp only: h22)
  qed
  have pal: "map unat [bmp ! (54 + 4 * i), bmp ! (54 + 4 * i + 1),
                       bmp ! (54 + 4 * i + 2), bmp ! (54 + 4 * i + 3)] = [i, i, i, 0]"
    if "i < 256" for i
  proof -
    have "bmp ! (54 + 4 * i + k) = b2 ! (54 + 4 * i + k)" if "k < 4" for k
      using that \<open>i < 256\<close> bmp_pixels_props(2) [OF p_def, of "54 + 4 * i + k" height pixelData b2]
      by (simp add: bmp_def)
    from this [of 0] this [of 1] this [of 2] this [of 3]
    show ?thesis
      using bmp_palette_props(3) [OF l1', of i] that
      by (simp add: b2_def unat_of_nat)
  qed
  show ?thesis
    using res len h22 sgn h28 h30 pal by blast
qed

theorem createBMP_layout_witness: "(case createBMP 1 1 [255] of Inl e \<Rightarrow> 0 | Inr bmp \<Rightarrow> int (length bmp)) = 1082"
proof -
  have h: "int (length [255 :: byte]) = 1 * 1" by simp
  from createBMP_layout [OF h] obtain bmp where
    "createBMP 1 1 [255] = Inr bmp"
    "int (length bmp) = 14 + 40 + 256 * 4 + (\<lceil>real_of_int 1 / 4\<rceil> * 4) * 1"
    by blast
  moreover have "\<lceil>1 / 4 :: real\<rceil> = 1" by (simp add: ceiling_eq_iff)
  ultimately show ?thesis by simp
qed

section \<open>Gray levels of the rendered buffer\<close>

lemma colored_simps [simp]:
  "colored C []"
  "colored C (s # ss) \<longleftrightarrow> snd s \<in> C \<and> colored C ss"
  "colored C (ss @ ts) \<longleftrightarrow> colored C ss \<and> colored C ts"
  by (auto simp: colored_def)

lemma colored_concat: "(\<And>xs. xs \<in> set xss \<Longrightarrow> colored C xs) \<Longrightarrow> colored C (concat xss)"
  by (induction xss) auto

lemma colored_mono: "colored C ss \<Longrightarrow> C \<subseteq> D \<Longrightarrow> colored D ss"
  by (auto simp: colored_def)

lemma drawChar_colored: "color \<in> C \<Longrightarrow> colored C (drawChar w x y ch color s)"
  unfolding drawChar_def
  by (auto simp: Let_def split: option.splits intro!: colored_concat)

lemma drawText_loop_colored:
  "color \<in> C \<Longrightarrow> colored C (fst (drawText_loop w x y chs color s))"
  by (induction chs arbitrary: x) (simp_all add: Let_def drawChar_colored)

lemma drawText_colored: "color \<in> C \<Longrightarrow> colored C (drawText w x y t color s)"
  by (simp add: drawText_def drawText_loop_colored)

lemma fillRect_colored: "color \<in> C \<Longrightarrow> colored C (fillRect w h x y rw rh color)"
  unfolding fillRect_def by (auto intro!: colored_concat)

lemma drawHLine_colored: "color \<in> C \<Longrightarrow> colored C (drawHLine w y x1 x2 color th)"
  by (simp add: drawHLine_def fillRect_colored)

lemma dashed_loop_total:
  assumes "0 < dashLen" "0 < gapLen"
  shows "\<exists>ss. dashed_loop w y x2 color dashLen gapLen x d acc = Some (acc @ ss)
              \<and> colored {color} ss"
proof (induction "nat (x2 - x)" arbitrary: x d acc rule: less_induct)
  case less
  show ?case
  proof (cases "x < x2")
    case False
    then show ?thesis by (subst dashed_loop.simps) simp
  next
    case True
    show ?thesis
    proof (cases d)
      case True
      have "nat (x2 - (x + dashLen)) < nat (x2 - x)" using \<open>x < x2\<close> assms by simp
      from less [OF this, of "\<not> d" "acc @ map (\<lambda>px. (y * w + px, color)) [x .. min (x + dashLen) x2 - 1]"]
      obtain ss where "dashed_loop w y x2 color dashLen gapLen (x + dashLen) (\<not> d)
           (acc @ map (\<lambda>px. (y * w + px, color)) [x .. min (x + dashLen) x2 - 1])
          = Some ((acc @ map (\<lambda>px. (y * w + px, color)) [x .. min (x + dashLen) x2 - 1]) @ ss)"
          "colored {color} ss" by blast
      then show ?thesis using \<open>x < x2\<close> True
        by (subst dashed_loop.simps) (auto simp: colored_def)
    next
      case False
      have "nat (x2 - (x + gapLen)) < nat (x2 - x)" using \<open>x < x2\<close> assms by simp
      from less [OF this, of "\<not> d" acc]
      obtain ss where "dashed_loop w y x2 color dashLen gapLen (x + gapLen) (\<not> d) acc = Some (acc @ ss)"
          "colored {color} ss" by blast
      then show ?thesis using \<open>x < x2\<close> False
        by (subst dashed_loop.simps) auto
    qed
  qed
qed

lemma drawCloudShape_colored: "INK_BLACK \<in> C \<Longrightarrow> colored C (drawCloudShape M w x y cw ch)"
  unfolding drawCloudShape_def
  by (auto simp: Let_def drawHLine_colored intro!: colored_concat)

lemma drawSun_colored: "INK_BLACK \<in> C \<Longrightarrow> colored C (drawSun M w x y)"
  unfolding drawSun_def
  by (auto simp: Let_def intro!: colored_concat)

lemma drawWeatherIcon_colored:
  assumes "INK_BLACK \<in> C" "DARK_GRAY \<in> C"
  shows "colored C (drawWeatherIcon M w x y code)"
proof (cases "iconFor code")
  case Sun
  then show ?thesis using assms by (simp add: drawWeatherIcon_def drawSun_colored)
next
  case Cloud
  then show ?thesis using assms by (simp add: drawWeatherIcon_def drawCloudShape_colored)
next
  case Fog
  then show ?thesis using assms
    by (auto simp: drawWeatherIcon_def Let_def drawHLine_colored intro!: colored_concat)
next
  case Rain
  have drops: "colored C (map (\<lambda>j. (f j, INK_BLACK)) js)" for f :: "int \<Rightarrow> int" and js
    using assms by (auto simp: colored_def)
  show ?thesis using Rain assms
    by (auto simp: drawWeatherIcon_def Let_def drawCloudShape_colored drops
          intro!: colored_concat)
next
  case Snow
  then show ?thesis using assms
    by (auto simp: drawWeatherIcon_def Let_def drawCloudShape_colored intro!: colored_concat)
next
  case Thunderstorm
  then show ?thesis using assms
    by (auto simp: drawWeatherIcon_def Let_def drawCloudShape_colored intro!: colored_concat)
next
  case Unknown
  then show ?thesis using assms by (simp add: drawWeatherIcon_def drawText_colored)
qed

lemma exec_total:
  assumes "dashes_ok c" "cmd_color c \<in> C" "INK_BLACK \<in> C" "DARK_GRAY \<in> C"
  shows "\<exists>ss. exec M w c = Some ss \<and> colored C ss"
proof (cases c)
  case (Text x y t color scale)
  then show ?thesis using assms by (simp add: drawText_colored)
next
  case (CenteredText y t color scale)
  then show ?thesis using assms by (simp add: drawCenteredText_def Let_def drawText_colored)
next
  case (RightAlignedText y t color scale margin)
  then show ?thesis using assms by (simp add: drawRightAlignedText_def Let_def drawText_colored)
next
  case (HLine y x1 x2 color thickness)
  then show ?thesis using assms by (simp add: drawHLine_colored)
next
  case (DashedHLine y x1 x2 color dashLen gapLen)
  then have "0 < dashLen" "0 < gapLen" using assms by simp_all
  from dashed_loop_total [OF this, of w y x2 color x1 True "[]"]
  show ?thesis using DashedHLine assms
    by (auto simp: drawDashedHLine_def colored_def)
next
  case (WeatherIcon x y code)
  then show ?thesis using assms by (simp add: drawWeatherIcon_colored)
qed

lemma run_total:
  assumes "\<forall>c \<in> set cs. dashes_ok c \<and> cmd_color c \<in> C" "INK_BLACK \<in> C" "DARK_GRAY \<in> C"
  shows "\<exists>ss. run M w cs = Some ss \<and> colored C ss"
  using assms(1)
proof (induction cs)
  case Nil
  then show ?case by simp
next
  case (Cons c cs)
  then obtain rest where rest: "run M w cs = Some rest" "colored C rest"
    by auto
  from Cons.prems have c: "dashes_ok c" "cmd_color c \<in> C" by simp_all
  from exec_total [OF c assms(2,3), of M w] obtain ss where
    ss: "exec M w c = Some ss" "colored C ss" by blast
  then show ?case using rest by simp
qed

lemma paint_levels:
  assumes "set b \<subseteq> C" "colored C ss"
  shows "set (paint b ss) \<subseteq> C"
  using assms unfolding paint_def
proof (induction ss arbitrary: b)
  case Nil
  then show ?case by simp
next
  case (Cons s ss)
  have "set (put b s) \<subseteq> C"
    using Cons.prems set_update_subset_insert [of b "nat (fst s)" "snd s"]
    by (auto simp: put_def split: prod.splits)
  then show ?case using Cons by simp
qed

lemma levels_simps [simp]:
  "is_level INK_BLACK" "is_level DARK_GRAY" "is_level LIGHT_GRAY" "is_level PAPER_WHITE"
  by (simp_all add: is_level_def)

lemma cmd_fine_simps [simp]:
  "cmd_fine (Text x y t color scale) = is_level color"
  "cmd_fine (CenteredText y t color scale) = is_level color"
  "cmd_fine (RightAlignedText y t color scale margin) = is_level color"
  "cmd_fine (HLine y x1 x2 color thickness) = is_level color"
  "cmd_fine (DashedHLine y x1 x2 color dashLen gapLen) = (0 < dashLen \<and> 0 < gapLen \<and> is_level color)"
  "cmd_fine (WeatherIcon x y code)"
  by (simp_all add: cmd_fine_def)

lemma event_row_fine: "c \<in> set (event_row w m td evs i y) \<Longrightarrow> cmd_fine c"
  by (auto simp: event_row_def Let_def split: if_splits)

lemma events_loop_fine: "c \<in> set (fst (events_loop w m td evs i y)) \<Longrightarrow> cmd_fine c"
proof (induction "length evs - i" arbitrary: i y)
  case 0
  then show ?case by (subst (asm) events_loop.simps) simp
next
  case (Suc n)
  then have "n = length evs - Suc i" by simp
  from Suc(1) [OF this] have IH:
    "\<And>y'. c \<in> set (fst (events_loop w m td evs (Suc i) y')) \<Longrightarrow> cmd_fine c" .
  from Suc(3) show ?case
    by (subst (asm) events_loop.simps)
       (auto simp: Let_def split: if_splits dest: event_row_fine IH)
qed

lemma days_loop_fine: "c \<in> set (days_loop w m days i y) \<Longrightarrow> cmd_fine c"
proof (induction "length days - i" arbitrary: i y)
  case 0
  then show ?case by (subst (asm) days_loop.simps) simp
next
  case (Suc n)
  then have "n = length days - Suc i" by simp
  from Suc(1) [OF this] have IH:
    "\<forall>y'. c \<in> set (days_loop w m days (Suc i) y') \<longrightarrow> cmd_fine c" by blast
  from Suc(3) show ?case
    apply (subst (asm) days_loop.simps)
    using IH
    apply (auto simp: Let_def split: if_splits dest: events_loop_fine)
    done
qed

lemma render_cmds_fine: "c \<in> set (render_cmds w h weather days g) \<Longrightarrow> cmd_fine c"
  by (auto simp: render_cmds_def weather_band_def date_header_def footer_def agenda_def Let_def
        dest: days_loop_fine)

lemma level_values: "is_level b \<Longrightarrow> unat b \<in> {0, 64, 176, 255}"
  by (auto simp: is_level_def INK_BLACK_def DARK_GRAY_def LIGHT_GRAY_def PAPER_WHITE_def)

lemma renderDisplay_returns:
  assumes "0 \<le> w * h"
  shows "\<exists>ss. run M w (render_cmds w h weather days g) = Some ss
           \<and> colored (Collect is_level) ss
           \<and> renderDisplay M w h weather days g
               = Some (Inr (paint (replicate (nat (w * h)) PAPER_WHITE) ss))"
proof -
  have "\<forall>c \<in> set (render_cmds w h weather days g). dashes_ok c \<and> cmd_color c \<in> Collect is_level"
    using render_cmds_fine by (auto simp: cmd_fine_def)
  from run_total [OF this, of M w] obtain ss where
    "run M w (render_cmds w h weather days g) = Some ss" "colored (Collect is_level) ss"
    by auto
  then show ?thesis using assms by (simp add: renderDisplay_def)
qed

text \<open>
  Claim C10. For every weather, day list, timestamp and dimensions: when the product of
  the dimensions is negative the allocation throws and no buffer is returned; otherwise
  the composer returns a buffer of \<open>width * height\<close> bytes, and every byte of it is one
  of the four levels 0 (ink black), 64 (dark gray), 176 (light gray) and 255 (paper
  white). This holds for every value of the floating-point parameters.
\<close>

theorem render_levels:
  "(width * height < 0 \<longrightarrow>
      renderDisplay M width height weather days generatedAt = Some (Inl RangeError))
   \<and> (0 \<le> width * height \<longrightarrow>
       (\<exists>pixels. renderDisplay M width height weather days generatedAt = Some (Inr pixels)
          \<and> int (length pixels) = width * height
          \<and> (\<forall>b \<in> set pixels. unat b \<in> {0, 64, 176, 255})))"
proof (intro conjI impI)
  assume "width * height < 0"
  then show "renderDisplay M width height weather days generatedAt = Some (Inl RangeError)"
    by (simp add: renderDisplay_def)
next
  assume nn: "0 \<le> width * height"
  from renderDisplay_returns [OF nn] obtain ss where
    ss: "colored (Collect is_level) ss"
      "renderDisplay M width height weather days generatedAt
         = Some (Inr (paint (replicate (nat (width * height)) PAPER_WHITE) ss))"
    by blast
  have "set (replicate (nat (width * height)) PAPER_WHITE) \<subseteq> Collect is_level"
    by auto
  from paint_levels [OF this ss(1)]
  have "\<forall>b \<in> set (paint (replicate (nat (width * height)) PAPER_WHITE) ss). unat b \<in> {0, 64, 176, 255}"
    using level_values by blast
  then show "\<exists>pixels. renderDisplay M width height weather days generatedAt = Some (Inr pixels)
          \<and> int (length pixels) = width * height
          \<and> (\<forall>b \<in> set pixels. unat b \<in> {0, 64, 176, 255})"
    using ss(2) nn by simp
qed

theorem render_levels_witness:
  "\<exists>pixels. renderDisplay centre_math 480 800 unavailableWeather (getMockEvents 0)
       \<lparr>getDay = 1, getMonth = 10, getDate = 2, toLocaleTimeString = js ''09:41''\<rparr> = Some (Inr pixels)
     \<and> int (length pixels) = 384000"
proof -
  have "(0::int) \<le> 480 * 800" by simp
  with render_levels [of 480 800 centre_math unavailableWeather "getMockEvents 0"
      "\<lparr>getDay = 1, getMonth = 10, getDate = 2, toLocaleTimeString = js ''09:41''\<rparr>"]
  obtain pixels where
    "renderDisplay centre_math 480 800 unavailableWeather (getMockEvents 0)
       \<lparr>getDay = 1, getMonth = 10, getDate = 2, toLocaleTimeString = js ''09:41''\<rparr> = Some (Inr pixels)"
    "int (length pixels) = 480 * 800"
    by blast
  then show ?thesis by simp
qed

section \<open>Overflow of a day\<close>

lemma events_loop_overflow:
  assumes "k < length evs"
    and "\<forall>j<k. y0 + 45 * int j + 30 \<le> m"
    and "y0 + 45 * int k + 30 > m"
    and "i \<le> k"
  shows "events_loop w m td evs i (y0 + 45 * int i) =
           (concat (map (\<lambda>j. event_row w m td evs j (y0 + 45 * int j)) [i ..< k])
            @ [Text MARGIN (y0 + 45 * int k) (more_marker (int (length evs) - int k)) LIGHT_GRAY 2],
            y0 + 45 * int k + 30)"
  using assms(4)
proof (induction "k - i" arbitrary: i)
  case 0
  then have "i = k" by simp
  then show ?case using assms(1,3)
    by (subst events_loop.simps) (simp add: Let_def)
next
  case (Suc n)
  then have ik: "i < k" and n: "n = k - Suc i" and le: "Suc i \<le> k" by simp_all
  have fit: "\<not> y0 + 45 * int i + 30 > m" using assms(2) ik by auto
  have il: "i < length evs" using ik assms(1) by simp
  have upt: "[i ..< k] = i # [Suc i ..< k]" using ik by (simp add: upt_conv_Cons)
  have y: "y0 + 45 * int i + 26 + (eventRowHeight - 26) = y0 + 45 * int (Suc i)"
    by (simp add: eventRowHeight_def)
  show ?case
    using Suc(1) [OF n le] fit il
    by (subst events_loop.simps) (simp add: Let_def upt y del: upt_Suc)
qed

text \<open>
  Claim C2. Take a day that the day loop reaches with the cursor at \<open>eventY\<close> and room for
  its header, and whose events overflow: \<open>k\<close>, the index of the first event that does not
  fit, is below the number of its events. Then from this day on the composer makes
  exactly these calls: the separator (for a day that is not the first), the day label,
  the rows of the events 0 to \<open>k - 1\<close>, and one marker \<open>+N more...\<close> where \<open>N\<close> is the number
  of events of the day minus \<open>k\<close>, the number of events that were not painted. No call
  follows the marker, whatever days come later: the agenda stops.
\<close>

theorem overflow_marker:
  fixes days :: "DayEvents list" and dayIndex :: nat and eventY :: int
  defines "day \<equiv> days ! dayIndex"
  defines "isToday \<equiv> (label day = js ''TODAY'')"
  defines "y1 \<equiv> (if dayIndex \<noteq> 0 then eventY + 15 else eventY)"
  defines "y0 \<equiv> y1 + 35"
  assumes reached: "dayIndex < length days"
    and header_fits: "eventY + (dayHeaderHeight + eventRowHeight) \<le> maxContentY"
    and overflow: "k < length (events day)"
    and earlier_fit: "\<forall>j<k. y0 + 45 * int j + 30 \<le> maxContentY"
    and no_fit: "y0 + 45 * int k + 30 > maxContentY"
  shows "days_loop width maxContentY days dayIndex eventY =
           (if dayIndex \<noteq> 0
            then [DashedHLine eventY MARGIN (width - MARGIN) DARK_GRAY 6 4] else [])
           @ [Text MARGIN y1 (label day) (if isToday then INK_BLACK else DARK_GRAY) 2]
           @ concat (map (\<lambda>j. event_row width maxContentY isToday (events day) j (y0 + 45 * int j))
                       [0 ..< k])
           @ [Text MARGIN (y0 + 45 * int k)
                (more_marker (int (length (events day)) - int k)) LIGHT_GRAY 2]"
proof -
  have ev: "events_loop width maxContentY isToday (events day) 0 y0 =
           (concat (map (\<lambda>j. event_row width maxContentY isToday (events day) j (y0 + 45 * int j)) [0 ..< k])
            @ [Text MARGIN (y0 + 45 * int k) (more_marker (int (length (events day)) - int k)) LIGHT_GRAY 2],
            y0 + 45 * int k + 30)"
    using events_loop_overflow [OF overflow earlier_fit no_fit, of 0 width isToday] by simp
  have stop: "days_loop width maxContentY days (Suc dayIndex) (y0 + 45 * int k + 30) = []"
    using no_fit
    by (subst days_loop.simps) (simp add: Let_def dayHeaderHeight_def eventRowHeight_def)
  have ne: "length (events day) \<noteq> 0" using overflow by auto
  show ?thesis
  proof (cases "dayIndex = 0")
    case True
    then have y: "y1 = eventY" "y0 = eventY + 35" by (simp_all add: y0_def y1_def)
    show ?thesis
      using reached header_fits ne True ev stop unfolding y day_def isToday_def
      by (subst days_loop.simps) (simp add: Let_def dayHeaderHeight_def)
  next
    case False
    then have y: "y1 = eventY + 15" "y0 = 50 + eventY" by (simp_all add: y0_def y1_def)
    show ?thesis
      using reached header_fits ne False ev stop unfolding y day_def isToday_def
      by (subst days_loop.simps) (simp add: Let_def dayHeaderHeight_def)
  qed
qed

theorem overflow_marker_witness:
  "last (agenda 480 800 (busyDay # getMockEvents 0))
     = Text 24 755 (js ''+40 more...'') LIGHT_GRAY 2"
proof -
  let ?days = "busyDay # getMockEvents 0"
  have a: "(0::nat) < length ?days" by simp
  have b: "270 + (dayHeaderHeight + eventRowHeight) \<le> (750::int)"
    by (simp add: dayHeaderHeight_def eventRowHeight_def)
  have c: "10 < length (events (?days ! 0))" by (simp add: busyDay_def)
  have d: "\<forall>j<10. (if (0::nat) \<noteq> 0 then 270 + 15 else 270) + 35 + 45 * int j + 30 \<le> (750::int)"
    by simp
  have e: "(if (0::nat) \<noteq> 0 then 270 + 15 else 270) + 35 + 45 * int 10 + 30 > (750::int)"
    by simp
  have m: "more_marker 40 = js ''+40 more...''" by code_simp
  from overflow_marker [OF a b c d e, of 480]
  have "last (days_loop 480 750 ?days 0 270) = Text MARGIN 755 (more_marker 40) LIGHT_GRAY 2"
    by (simp add: busyDay_def)
  then show ?thesis
    by (simp add: agenda_def FOOTER_HEIGHT_def dateSectionEnd_def weatherSectionHeight_def
          MARGIN_def m)
qed

section \<open>Rows reached by the drawing primitives\<close>

lemma row_of: "0 \<le> px \<Longrightarrow> px < w \<Longrightarrow> (py * w + px) div w = (py :: int)"
  by simp

lemma rows_in_simps [simp]:
  "rows_in w lo hi []"
  "rows_in w lo hi (s # ss) \<longleftrightarrow> (lo \<le> fst s div w \<and> fst s div w < hi) \<and> rows_in w lo hi ss"
  "rows_in w lo hi (ss @ ts) \<longleftrightarrow> rows_in w lo hi ss \<and> rows_in w lo hi ts"
  by (auto simp: rows_in_def)

lemma rows_in_concat: "(\<And>xs. xs \<in> set xss \<Longrightarrow> rows_in w lo hi xs) \<Longrightarrow> rows_in w lo hi (concat xss)"
  by (induction xss) auto

lemma rows_in_mono: "rows_in w lo hi ss \<Longrightarrow> lo' \<le> lo \<Longrightarrow> hi \<le> hi' \<Longrightarrow> rows_in w lo' hi' ss"
  by (fastforce simp: rows_in_def)

lemma rows_in_pixel:
  "0 \<le> px \<Longrightarrow> px < w \<Longrightarrow> lo \<le> py \<Longrightarrow> py < hi \<Longrightarrow> rows_in w lo hi [(py * w + px, c)]"
  by (simp add: row_of)

lemma drawChar_rows: "rows_in w (max 0 y) (y + 8 * scale) (drawChar w x y ch color scale)"
  unfolding rows_in_def
proof
  fix s assume "s \<in> set (drawChar w x y ch color scale)"
  then obtain row sy px where s:
    "row < (8::nat)" "0 \<le> sy" "sy \<le> scale - 1"
    "fst s = (y + int row * scale + sy) * w + px" "0 \<le> px" "px < w"
    "0 \<le> y + int row * scale + sy"
    by (auto simp: drawChar_def Let_def split: option.splits if_splits)
  have sc: "0 \<le> scale" using s(2,3) by simp
  have "int row \<le> 7" using s(1) by simp
  then have up: "int row * scale \<le> 7 * scale" using sc by (rule mult_right_mono)
  have lo: "0 \<le> int row * scale" using sc by simp
  have r: "fst s div w = y + int row * scale + sy"
    unfolding s(4) using s(5,6) by (rule row_of)
  show "max 0 y \<le> fst s div w \<and> fst s div w < y + 8 * scale"
    unfolding r max.bounded_iff using s(2,3,7) up lo by (intro conjI) linarith+
qed

lemma drawText_loop_rows:
  "rows_in w (max 0 y) (y + 8 * scale) (fst (drawText_loop w x y chs color scale))"
  by (induction chs arbitrary: x) (simp_all add: Let_def drawChar_rows)

lemma drawText_rows: "rows_in w (max 0 y) (y + 8 * scale) (drawText w x y t color scale)"
  by (simp add: drawText_def drawText_loop_rows)

lemma fillRect_rows: "rows_in w (max 0 y) (min (y + h) height) (fillRect w height x y rw h color)"
  unfolding rows_in_def
proof
  fix s assume "s \<in> set (fillRect w height x y rw h color)"
  then obtain px py where s: "fst s = py * w + px" "0 \<le> px" "px < w" "0 \<le> py" "y \<le> py"
      "py < min (y + h) height"
    by (auto simp: fillRect_def split: if_splits)
  have r: "fst s div w = py" unfolding s(1) using s(2,3) by (rule row_of)
  show "max 0 y \<le> fst s div w \<and> fst s div w < min (y + h) height"
    unfolding r using s by simp
qed

lemma drawHLine_rows: "rows_in w (max 0 y) (y + th) (drawHLine w y x1 x2 color th)"
  using fillRect_rows [of w y th 9999 x1 "x2 - x1" color]
  by (auto simp: drawHLine_def intro: rows_in_mono)

lemma row_of_plus: "0 \<le> px + k \<Longrightarrow> px + k < w \<Longrightarrow> (py * w + px + k) div w = (py :: int)"
  using row_of [of "px + k" w py] by (simp add: add.assoc)

lemma row_of_minus: "0 \<le> px - k \<Longrightarrow> px - k < w \<Longrightarrow> (py * w + px - k) div w = (py :: int)"
  using row_of [of "px - k" w py] by (simp add: algebra_simps)

lemma round_tenths_between:
  assumes "0 \<le> t" "t \<le> 10" "lo \<le> a" "a \<le> hi" "lo \<le> b" "b \<le> hi"
  shows "lo \<le> round_tenths a (b - a) t \<and> round_tenths a (b - a) t \<le> hi"
proof -
  have n: "10 * a + (b - a) * t + 5 = (10 - t) * a + t * b + 5"
    by (simp add: algebra_simps)
  have "(10 - t) * lo \<le> (10 - t) * a" "t * lo \<le> t * b"
    using assms by (simp_all add: mult_left_mono)
  then have l: "10 * lo + 5 \<le> (10 - t) * a + t * b + 5" by (simp add: algebra_simps)
  have "(10 - t) * a \<le> (10 - t) * hi" "t * b \<le> t * hi"
    using assms by (simp_all add: mult_left_mono)
  then have u: "(10 - t) * a + t * b + 5 \<le> 10 * hi + 5" by (simp add: algebra_simps)
  show ?thesis
    unfolding round_tenths_def n using l u by (intro conjI) linarith+
qed

lemma math_ok_polar:
  "math_ok M \<Longrightarrow> 0 \<le> r \<Longrightarrow>
     c - r \<le> round_polar M c r f deg \<and> round_polar M c r f deg \<le> c + r"
  unfolding math_ok_def by blast

lemma math_ok_arc:
  "math_ok M \<Longrightarrow> 0 \<le> b \<Longrightarrow> 0 \<le> h \<Longrightarrow> unit_decimal p \<Longrightarrow> unit_decimal q \<Longrightarrow>
     a - h \<le> round_arc M a b p h q f deg \<and> round_arc M a b p h q f deg \<le> a + b + h"
  unfolding math_ok_def by blast

lemma math_ok_lin:
  "math_ok M \<Longrightarrow> 0 \<le> b \<Longrightarrow> unit_decimal p \<Longrightarrow>
     a \<le> round_lin M a b p \<and> round_lin M a b p \<le> a + b"
  unfolding math_ok_def by blast

lemma drawSun_rows:
  assumes "math_ok M"
  shows "rows_in w y (y + 49) (drawSun M w x y)"
proof -
  have circle: "y \<le> round_polar M (y + 24) 14 Sin a" "round_polar M (y + 24) 14 Sin a < y + 49"
    for a
    using math_ok_polar [OF assms, of 14 "y + 24" Sin a] by simp_all
  have ends: "y \<le> round_polar M (y + 24) 18 Sin a" "round_polar M (y + 24) 18 Sin a \<le> y + 48"
      "y \<le> round_polar M (y + 24) 24 Sin a" "round_polar M (y + 24) 24 Sin a \<le> y + 48" for a
    using math_ok_polar [OF assms, of 18 "y + 24" Sin a] math_ok_polar [OF assms, of 24 "y + 24" Sin a]
    by simp_all
  have ray:
    "y \<le> round_tenths (round_polar M (y + 24) 18 Sin a)
            (round_polar M (y + 24) 24 Sin a - round_polar M (y + 24) 18 Sin a) t"
    "round_tenths (round_polar M (y + 24) 18 Sin a)
       (round_polar M (y + 24) 24 Sin a - round_polar M (y + 24) 18 Sin a) t < y + 49"
    if "0 \<le> t" "t \<le> 10" for a t
    using round_tenths_between [OF that ends, of a a] by simp_all
  show ?thesis
    unfolding drawSun_def Let_def
    by (auto intro!: rows_in_concat simp: row_of circle ray)
qed

lemma unit_decimals [simp]:
  "unit_decimal (3, 10)" "unit_decimal (4, 10)" "unit_decimal (5, 10)" "unit_decimal (6, 10)"
  "unit_decimal (8, 10)" "unit_decimal (35, 100)" "unit_decimal (75, 100)"
  "unit_decimal (1, 10)" "unit_decimal (95, 100)"
  by (simp_all add: unit_decimal_def)

lemma drawCloudShape_rows:
  assumes "math_ok M" "0 \<le> cw" "0 \<le> ch"
  shows "rows_in w 0 (y + 2 * ch + 1) (drawCloudShape M w x y cw ch)"
proof -
  have arc: "round_arc M y ch p ch q Sin a \<le> y + 2 * ch"
    if "unit_decimal p" "unit_decimal q" for p q a
    using math_ok_arc [OF assms(1) assms(3) assms(3) that, of y Sin a] by simp
  have line: "rows_in w 0 (y + 2 * ch + 1) (drawHLine w (round_lin M y ch (75, 100)) x1 x2 INK_BLACK 1)"
    for x1 x2
    using math_ok_lin [OF assms(1) assms(3), of "(75, 100)" y] assms(3)
    by (intro rows_in_mono [OF drawHLine_rows]) simp_all
  show ?thesis
    unfolding drawCloudShape_def Let_def
    by (auto intro!: rows_in_concat simp: row_of arc line)
qed

lemma flake_rows:
  assumes "2 \<le> sx" "sx + 2 < w" "lo \<le> sy - 2" "sy + 2 < hi"
  shows "rows_in w lo hi
           [(sy * w + sx, c), ((sy - 2) * w + sx, c), ((sy + 2) * w + sx, c),
            (sy * w + sx - 2, c), (sy * w + sx + 2, c)]"
proof -
  have a: "(sy * w + sx) div w = sy" "((sy - 2) * w + sx) div w = sy - 2"
      "((sy + 2) * w + sx) div w = sy + 2"
    using assms(1,2) by (simp_all only: row_of)
  have b: "(sy * w + sx - 2) div w = sy"
    using assms(1,2) by (intro row_of_minus) simp_all
  have d: "(sy * w + sx + 2) div w = sy"
    using assms(1,2) by (intro row_of_plus) simp_all
  show ?thesis
    unfolding rows_in_simps fst_conv a b d using assms(3,4) by simp
qed

lemma bolt_rows:
  assumes "0 \<le> px" "px + 1 < w" "lo \<le> py" "py < hi"
  shows "rows_in w lo hi [(py * w + px, c), (py * w + px + 1, c)]"
proof -
  have a: "(py * w + px) div w = py"
    using assms(1,2) by (intro row_of) simp_all
  have b: "(py * w + px + 1) div w = py"
    using assms(1,2) by (intro row_of_plus) simp_all
  show ?thesis
    unfolding rows_in_simps fst_conv a b using assms(3,4) by simp
qed

lemma drawWeatherIcon_rows:
  assumes "math_ok M" "0 \<le> x" "x + 36 < w" "0 \<le> y"
  shows "rows_in w 0 (y + 57) (drawWeatherIcon M w x y code)"
proof (cases "iconFor code")
  case Sun
  then show ?thesis
    using rows_in_mono [OF drawSun_rows [OF assms(1), of w y x], of 0 "y + 57"] assms(4)
    by (simp add: drawWeatherIcon_def)
next
  case Cloud
  then show ?thesis
    using rows_in_mono [OF drawCloudShape_rows [OF assms(1), of 32 20 w "y + 16" "x + 8"], of 0 "y + 57"]
    by (simp add: drawWeatherIcon_def)
next
  case Fog
  have "rows_in w 0 (y + 57) (drawHLine w (y + 12 + i * 10) x1 x2 DARK_GRAY 2)"
    if "0 \<le> i" "i \<le> 3" for i x1 x2
    using that assms(4) by (intro rows_in_mono [OF drawHLine_rows]) simp_all
  then show ?thesis using Fog
    by (auto simp: drawWeatherIcon_def Let_def intro!: rows_in_concat)
next
  case Rain
  have c: "rows_in w 0 (y + 57) (drawCloudShape M w (x + 8) (y + 8) 32 16)"
    by (intro rows_in_mono [OF drawCloudShape_rows [OF assms(1)]]) simp_all
  have drops: "rows_in w 0 (y + 57) (map (\<lambda>j. ((y + 32 + j) * w + dx, INK_BLACK)) [0 .. 7])"
    if "0 \<le> dx" "dx < w" for dx
    using that assms(4) by (auto simp: rows_in_def row_of)
  show ?thesis using Rain assms(2-4)
    by (auto simp: drawWeatherIcon_def Let_def c intro!: rows_in_concat drops)
next
  case Snow
  have c: "rows_in w 0 (y + 57) (drawCloudShape M w (x + 8) (y + 8) 32 16)"
    by (intro rows_in_mono [OF drawCloudShape_rows [OF assms(1)]]) simp_all
  show ?thesis
    unfolding drawWeatherIcon_def Let_def Snow icon.case rows_in_simps(3)
  proof (intro conjI rows_in_concat)
    show "rows_in w 0 (y + 57) (drawCloudShape M w (x + 8) (y + 8) 32 16)" by (rule c)
  next
    fix xs
    assume "xs \<in> set (map (\<lambda>i. [((y + 36) * w + (x + 14 + i * 10), INK_BLACK),
                  ((y + 36 - 2) * w + (x + 14 + i * 10), INK_BLACK),
                  ((y + 36 + 2) * w + (x + 14 + i * 10), INK_BLACK),
                  ((y + 36) * w + (x + 14 + i * 10) - 2, INK_BLACK),
                  ((y + 36) * w + (x + 14 + i * 10) + 2, INK_BLACK)]) [0 .. 2])"
    then obtain i where i: "0 \<le> i" "i \<le> 2"
      "xs = [((y + 36) * w + (x + 14 + i * 10), INK_BLACK),
                  ((y + 36 - 2) * w + (x + 14 + i * 10), INK_BLACK),
                  ((y + 36 + 2) * w + (x + 14 + i * 10), INK_BLACK),
                  ((y + 36) * w + (x + 14 + i * 10) - 2, INK_BLACK),
                  ((y + 36) * w + (x + 14 + i * 10) + 2, INK_BLACK)]"
      by auto
    show "rows_in w 0 (y + 57) xs"
      unfolding i(3) using i(1,2) assms(2-4) by (intro flake_rows) simp_all
  qed
next
  case Thunderstorm
  have c: "rows_in w 0 (y + 57) (drawCloudShape M w (x + 8) (y + 4) 32 16)"
    by (intro rows_in_mono [OF drawCloudShape_rows [OF assms(1)]]) simp_all
  show ?thesis
    unfolding drawWeatherIcon_def Let_def Thunderstorm icon.case rows_in_simps(3)
  proof (intro conjI rows_in_concat)
    show "rows_in w 0 (y + 57) (drawCloudShape M w (x + 8) (y + 4) 32 16)" by (rule c)
  next
    fix xs
    assume "xs \<in> set (map (\<lambda>i. [((y + 24 + i * 2) * w + (x + 24 + (if i < 6 then - i else i - 12)), INK_BLACK),
                  ((y + 24 + i * 2) * w + (x + 24 + (if i < 6 then - i else i - 12)) + 1, INK_BLACK)])
               [0 .. 11])"
    then obtain i where i: "0 \<le> i" "i \<le> 11"
      "xs = [((y + 24 + i * 2) * w + (x + 24 + (if i < 6 then - i else i - 12)), INK_BLACK),
             ((y + 24 + i * 2) * w + (x + 24 + (if i < 6 then - i else i - 12)) + 1, INK_BLACK)]"
      by auto
    show "rows_in w 0 (y + 57) xs"
      unfolding i(3) using i(1,2) assms(2-4) by (intro bolt_rows) simp_all
  qed
next
  case Unknown
  then show ?thesis
    using rows_in_mono [OF drawText_rows [of w "y + 16" 3 "x + 16" "js ''?''" INK_BLACK], of 0 "y + 57"]
    by (simp add: drawWeatherIcon_def)
qed

lemma dashed_loop_rows:
  assumes "0 < dashLen" "0 < gapLen" "x2 \<le> w" "0 \<le> x"
  shows "\<exists>ss. dashed_loop w y x2 color dashLen gapLen x d acc = Some (acc @ ss)
              \<and> rows_in w y (y + 1) ss"
  using assms(4)
proof (induction "nat (x2 - x)" arbitrary: x d acc rule: less_induct)
  case less
  show ?case
  proof (cases "x < x2")
    case False
    then show ?thesis by (subst dashed_loop.simps) simp
  next
    case True
    show ?thesis
    proof (cases d)
      case True
      let ?new = "map (\<lambda>px. (y * w + px, color)) [x .. min (x + dashLen) x2 - 1]"
      have new: "rows_in w y (y + 1) ?new"
        using less.prems assms(3) by (auto simp: rows_in_def row_of)
      have "nat (x2 - (x + dashLen)) < nat (x2 - x)" using \<open>x < x2\<close> assms by simp
      moreover have "0 \<le> x + dashLen" using less.prems assms by simp
      ultimately obtain ss where
        "dashed_loop w y x2 color dashLen gapLen (x + dashLen) (\<not> d) (acc @ ?new)
          = Some ((acc @ ?new) @ ss)"
        "rows_in w y (y + 1) ss"
        using less.hyps [of "x + dashLen" "\<not> d" "acc @ ?new"] by blast
      then show ?thesis using \<open>x < x2\<close> True new
        by (subst dashed_loop.simps) simp
    next
      case False
      have "nat (x2 - (x + gapLen)) < nat (x2 - x)" using \<open>x < x2\<close> assms by simp
      moreover have "0 \<le> x + gapLen" using less.prems assms by simp
      ultimately obtain ss where
        "dashed_loop w y x2 color dashLen gapLen (x + gapLen) (\<not> d) acc = Some (acc @ ss)"
        "rows_in w y (y + 1) ss"
        using less.hyps [of "x + gapLen" "\<not> d" acc] by blast
      then show ?thesis using \<open>x < x2\<close> False
        by (subst dashed_loop.simps) simp
    qed
  qed
qed

lemma exec_rows:
  assumes "math_ok M" "cmd_within w lo hi c"
  shows "\<exists>ss. exec M w c = Some ss \<and> rows_in w lo hi ss"
proof (cases c)
  case (Text x y t color scale)
  then show ?thesis using assms(2)
    by (auto intro: rows_in_mono [OF drawText_rows])
next
  case (CenteredText y t color scale)
  then show ?thesis using assms(2)
    by (auto simp: drawCenteredText_def Let_def intro: rows_in_mono [OF drawText_rows])
next
  case (RightAlignedText y t color scale margin)
  then show ?thesis using assms(2)
    by (auto simp: drawRightAlignedText_def Let_def intro: rows_in_mono [OF drawText_rows])
next
  case (HLine y x1 x2 color thickness)
  then show ?thesis using assms(2)
    by (auto intro: rows_in_mono [OF drawHLine_rows])
next
  case (DashedHLine y x1 x2 color dashLen gapLen)
  then have d: "0 < dashLen" "0 < gapLen" "x2 \<le> w" "0 \<le> x1" "lo \<le> y" "y < hi"
    using assms(2) by simp_all
  from dashed_loop_rows [OF d(1-4), of y color True "[]"]
  obtain ss where "dashed_loop w y x2 color dashLen gapLen x1 True [] = Some ss"
    "rows_in w y (y + 1) ss" by auto
  then show ?thesis using DashedHLine d(5,6)
    by (auto simp: drawDashedHLine_def intro: rows_in_mono)
next
  case (WeatherIcon x y code)
  then have i: "0 \<le> x" "x + 36 < w" "0 \<le> y" "lo \<le> 0" "y + 57 \<le> hi"
    using assms(2) by simp_all
  show ?thesis using WeatherIcon i(4,5)
    by (auto intro: rows_in_mono [OF drawWeatherIcon_rows [OF assms(1) i(1-3)]])
qed

lemma run_rows:
  assumes "math_ok M" "\<forall>c \<in> set cs. cmd_within w lo hi c"
  shows "\<exists>ss. run M w cs = Some ss \<and> rows_in w lo hi ss"
  using assms(2)
proof (induction cs)
  case Nil
  then show ?case by simp
next
  case (Cons c cs)
  then obtain rest where rest: "run M w cs = Some rest" "rows_in w lo hi rest" by auto
  from Cons.prems have "cmd_within w lo hi c" by simp
  from exec_rows [OF assms(1) this] obtain ss where
    "exec M w c = Some ss" "rows_in w lo hi ss" by blast
  then show ?case using rest by simp
qed

lemma run_append:
  "run M w (cs @ ds) =
     (case run M w cs of None \<Rightarrow> None
      | Some a \<Rightarrow> (case run M w ds of None \<Rightarrow> None | Some b \<Rightarrow> Some (a @ b)))"
  by (induction cs) (auto split: option.splits)

lemma weather_band_within:
  "277 \<le> w \<Longrightarrow> c \<in> set (weather_band w weather) \<Longrightarrow> cmd_within w 0 252 c"
  by (auto simp: weather_band_def Let_def rightX_def weatherSectionHeight_def)

lemma date_header_within:
  "c \<in> set (date_header w g) \<Longrightarrow> cmd_within w 0 252 c"
  by (auto simp: date_header_def Let_def dateSectionEnd_def weatherSectionHeight_def)

lemma footer_within:
  "c \<in> set (footer w h g) \<Longrightarrow> cmd_within w (h - 40) (h - 22) c"
  by (auto simp: footer_def Let_def)

lemma days_loop_Nil: "days_loop w m [] i y = []"
  by (subst days_loop.simps) simp

lemma math_ok_centre: "math_ok centre_math"
  by (simp add: math_ok_def centre_math_def)

lemma pixel_in_buffer:
  fixes x y w h :: int
  assumes "0 \<le> x" "x < w" "0 \<le> y" "y < h"
  shows "0 \<le> y * w + x" "y * w + x < w * h"
proof -
  have w: "0 \<le> w" using assms by simp
  then have "0 \<le> y * w" using assms(3) by simp
  then show "0 \<le> y * w + x" using assms(1) by simp
  have "y \<le> h - 1" using assms(4) by simp
  then have "y * w \<le> (h - 1) * w" using w by (rule mult_right_mono)
  then have "y * w + x < (h - 1) * w + w" using assms(2) by linarith
  then show "y * w + x < w * h" by (simp add: algebra_simps)
qed

lemma cmd_within_mono:
  "cmd_within w lo hi c \<Longrightarrow> lo' \<le> lo \<Longrightarrow> hi \<le> hi' \<Longrightarrow> cmd_within w lo' hi' c"
  by (cases c) auto

lemma paint_append: "paint b (ss @ ts) = paint (paint b ss) ts"
  by (simp add: paint_def)

lemma paint_last_write:
  assumes "j < length b" "(int j, v) \<in> set ss" "\<forall>s \<in> set ss. fst s = int j \<longrightarrow> snd s = v"
  shows "paint b ss ! j = v"
  using assms(2,3)
proof (induction ss rule: rev_induct)
  case Nil
  then show ?case by simp
next
  case (snoc s ss)
  have step: "paint b (ss @ [s]) = put (paint b ss) s" by (simp add: paint_def)
  show ?case
  proof (cases "fst s = int j")
    case True
    then have "snd s = v" using snoc.prems(2) by simp
    then show ?thesis unfolding step using True assms(1)
      by (cases s) (simp add: put_def)
  next
    case False
    then have "(int j, v) \<in> set ss" using snoc.prems(1) by auto
    then have "paint b ss ! j = v" using snoc.IH snoc.prems(2) by simp
    then show ?thesis unfolding step using False by (simp add: put_nth_other)
  qed
qed

lemma fillRect_mem:
  assumes "x \<le> px" "px < x + rw" "px < w" "0 \<le> px" "y \<le> py" "py < y + h" "py < height" "0 \<le> py"
  shows "(py * w + px, color) \<in> set (fillRect w height x y rw h color)"
  apply (simp add: fillRect_def)
  apply (rule bexI [of _ py])
   apply (rule bexI [of _ px])
  using assms apply simp_all
  done

lemma rows_in_avoid:
  assumes "rows_in w lo hi ss" "0 \<le> x" "x < w" "r < lo \<or> hi \<le> r" "s \<in> set ss"
  shows "fst s \<noteq> r * w + x"
proof
  assume "fst s = r * w + x"
  then have "fst s div w = r" using assms(2,3) by (simp add: row_of)
  then show False using assms(1,4,5) by (auto simp: rows_in_def)
qed

lemma painted_rule:
  assumes M: "math_ok M"
    and before: "\<forall>c \<in> set as. cmd_within w 0 r c"
    and after: "\<forall>c \<in> set bs. cmd_within w (r + th) hi c"
    and r: "0 \<le> r" "r < 9999" "r < h" "0 < th"
    and x: "0 \<le> x" "x1 \<le> x" "x < x2" "x < w"
  shows "\<exists>ss. run M w (as @ HLine r x1 x2 col th # bs) = Some ss
     \<and> paint (replicate (nat (w * h)) PAPER_WHITE) ss ! nat (r * w + x) = col"
proof -
  from run_rows [OF M before] obtain sa where
    sa: "run M w as = Some sa" "rows_in w 0 r sa" by blast
  from run_rows [OF M after] obtain sb where
    sb: "run M w bs = Some sb" "rows_in w (r + th) hi sb" by blast
  let ?sc = "drawHLine w r x1 x2 col th"
  let ?j = "nat (r * w + x)"
  let ?b = "replicate (nat (w * h)) PAPER_WHITE"
  have run: "run M w (as @ HLine r x1 x2 col th # bs) = Some (sa @ ?sc @ sb)"
    using sa(1) sb(1) by (simp add: run_append)
  have inb: "0 \<le> r * w + x" "r * w + x < w * h"
    using pixel_in_buffer [of x w r h] r x by simp_all
  have j: "int ?j = r * w + x" using inb by simp
  have len: "?j < length (paint ?b sa)" using inb by simp
  have mem: "(int ?j, col) \<in> set ?sc"
    unfolding j drawHLine_def using r x by (intro fillRect_mem) simp_all
  have col: "\<forall>s \<in> set ?sc. fst s = int ?j \<longrightarrow> snd s = col"
    using drawHLine_colored [of col "{col}" w r x1 x2 th] by (auto simp: colored_def)
  have "\<forall>s \<in> set sb. fst s \<noteq> int ?j"
    unfolding j using rows_in_avoid [OF sb(2) x(1,4)] r(4) by auto
  then have "paint ?b (sa @ ?sc @ sb) ! ?j = paint (paint ?b sa) ?sc ! ?j"
    by (simp add: paint_append paint_nth_other)
  also have "\<dots> = col" using len mem col by (rule paint_last_write)
  finally show ?thesis using run by simp
qed

lemma weather_band_split:
  "weather_band w weather
     = butlast (weather_band w weather) @ [HLine weatherSectionHeight MARGIN (w - MARGIN) INK_BLACK 3]"
  by (simp add: weather_band_def Let_def)

lemma weather_texts_within:
  "277 \<le> w \<Longrightarrow> c \<in> set (butlast (weather_band w weather)) \<Longrightarrow> cmd_within w 0 180 c"
  by (auto simp: weather_band_def Let_def rightX_def)

lemma date_header_split:
  "date_header w g
     = [hd (date_header w g), HLine dateSectionEnd MARGIN (w - MARGIN) INK_BLACK 2]"
  by (simp add: date_header_def Let_def)

lemma date_text_within: "cmd_within w 183 250 (hd (date_header w g))"
  by (simp add: date_header_def Let_def weatherSectionHeight_def)

lemma footer_split:
  "footer w h g = HLine (h - 40) MARGIN (w - MARGIN) LIGHT_GRAY 1 # tl (footer w h g)"
  by (simp add: footer_def Let_def)

lemma footer_text_within: "c \<in> set (tl (footer w h g)) \<Longrightarrow> cmd_within w (h - 39) (h - 22) c"
  by (auto simp: footer_def Let_def)

lemma empty_page_rules:
  assumes M: "math_ok M" and w: "277 \<le> width" and h: "292 \<le> height" "height < 10039"
    and x: "MARGIN \<le> x" "x < width - MARGIN"
    and run: "run M width (weather_band width weather @ date_header width g @ footer width height g)
                = Some ss"
  defines "pixels \<equiv> paint (replicate (nat (width * height)) PAPER_WHITE) ss"
  shows "pixels ! nat (weatherSectionHeight * width + x) = INK_BLACK"
    and "pixels ! nat (dateSectionEnd * width + x) = INK_BLACK"
    and "pixels ! nat ((height - 40) * width + x) = LIGHT_GRAY"
proof -
  let ?WB = "weather_band width weather" and ?DH = "date_header width g"
  let ?F = "footer width height g"
  have x0: "0 \<le> x" "x < width" using x by (simp_all add: MARGIN_def)
  have wb: "\<forall>c \<in> set ?WB. cmd_within width 0 252 c"
    using weather_band_within [OF w] by blast
  have dh: "\<forall>c \<in> set ?DH. cmd_within width 183 252 c"
    by (simp add: date_header_def Let_def weatherSectionHeight_def dateSectionEnd_def)
  have f: "\<forall>c \<in> set ?F. cmd_within width (height - 40) (height - 22) c"
    using footer_within by blast
  txt \<open>the rule of the weather band\<close>
  have a1: "\<forall>c \<in> set (butlast ?WB). cmd_within width 0 weatherSectionHeight c"
    using weather_texts_within [OF w] by (simp add: weatherSectionHeight_def)
  have b1: "\<forall>c \<in> set (?DH @ ?F). cmd_within width (weatherSectionHeight + 3) (height + 252) c"
    using dh f h(1)
    by (auto simp: weatherSectionHeight_def intro: cmd_within_mono)
  have e1: "?WB @ ?DH @ ?F
      = butlast ?WB @ HLine weatherSectionHeight MARGIN (width - MARGIN) INK_BLACK 3 # (?DH @ ?F)"
    by (subst weather_band_split) simp
  from painted_rule [OF M a1 b1, of height x MARGIN "width - MARGIN" INK_BLACK] h x x0
  show "pixels ! nat (weatherSectionHeight * width + x) = INK_BLACK"
    unfolding pixels_def e1 [symmetric] run by (simp add: weatherSectionHeight_def)
  txt \<open>the rule of the date header\<close>
  have a2: "\<forall>c \<in> set (?WB @ [hd ?DH]). cmd_within width 0 dateSectionEnd c"
    using wb date_text_within [of width g] w
    by (auto simp: dateSectionEnd_def weatherSectionHeight_def weather_band_def Let_def rightX_def
          intro: cmd_within_mono)
  have b2: "\<forall>c \<in> set ?F. cmd_within width (dateSectionEnd + 2) (height + 252) c"
    using f h(1)
    by (auto simp: dateSectionEnd_def weatherSectionHeight_def intro: cmd_within_mono)
  have e2: "?WB @ ?DH @ ?F
      = (?WB @ [hd ?DH]) @ HLine dateSectionEnd MARGIN (width - MARGIN) INK_BLACK 2 # ?F"
    by (subst date_header_split) simp
  from painted_rule [OF M a2 b2, of height x MARGIN "width - MARGIN" INK_BLACK] h x x0
  show "pixels ! nat (dateSectionEnd * width + x) = INK_BLACK"
    unfolding pixels_def e2 [symmetric] run
    by (simp add: dateSectionEnd_def weatherSectionHeight_def)
  txt \<open>the rule of the footer\<close>
  have a3: "\<forall>c \<in> set (?WB @ ?DH). cmd_within width 0 (height - 40) c"
    using wb dh h(1) by (auto intro: cmd_within_mono)
  have b3: "\<forall>c \<in> set (tl ?F). cmd_within width (height - 40 + 1) (height - 22) c"
    using footer_text_within [of _ width height g] by simp
  have e3: "?WB @ ?DH @ ?F
      = (?WB @ ?DH) @ HLine (height - 40) MARGIN (width - MARGIN) LIGHT_GRAY 1 # tl ?F"
    by (subst footer_split) simp
  from painted_rule [OF M a3 b3, of height x MARGIN "width - MARGIN" LIGHT_GRAY] h x x0
  show "pixels ! nat ((height - 40) * width + x) = LIGHT_GRAY"
    unfolding pixels_def e3 [symmetric] run by simp
qed

section \<open>The page without days\<close>



section \<open>Stores of a render stay in the buffer\<close>

lemma events_loop_done: "\<not> i < length evs \<Longrightarrow> events_loop w m td evs i y = ([], y)"
  by (subst events_loop.simps) simp

lemma events_loop_marker:
  "i < length evs \<Longrightarrow> y + 30 > m \<Longrightarrow>
     events_loop w m td evs i y
       = ([Text MARGIN y (more_marker (int (length evs) - int i)) LIGHT_GRAY 2], y + 30)"
  by (subst events_loop.simps) (simp add: Let_def)

lemma events_loop_row:
  "i < length evs \<Longrightarrow> \<not> y + 30 > m \<Longrightarrow>
     events_loop w m td evs i y
       = (event_row w m td evs i y @ fst (events_loop w m td evs (Suc i) (y + 45)),
          snd (events_loop w m td evs (Suc i) (y + 45)))"
  by (subst events_loop.simps) (simp add: Let_def eventRowHeight_def add.commute)

lemma days_loop_done: "\<not> i < length days \<Longrightarrow> days_loop w m days i y = []"
  by (subst days_loop.simps) simp

lemma days_loop_full: "i < length days \<Longrightarrow> y + 85 > m \<Longrightarrow> days_loop w m days i y = []"
  by (subst days_loop.simps) (simp add: Let_def dayHeaderHeight_def eventRowHeight_def)

lemma days_loop_day:
  assumes "i < length days" "\<not> y + 85 > m" "y1 = (if i \<noteq> 0 then y + 15 else y)"
  shows "days_loop w m days i y =
     (if i \<noteq> 0 then [DashedHLine y MARGIN (w - MARGIN) DARK_GRAY 6 4] else [])
     @ [Text MARGIN y1 (label (days ! i))
          (if label (days ! i) = js ''TODAY'' then INK_BLACK else DARK_GRAY) 2]
     @ (if events (days ! i) = []
        then [Text (MARGIN + timeColumnWidth) (y1 + 35) (js ''No events'') LIGHT_GRAY 2]
             @ days_loop w m days (Suc i) (y1 + 80)
        else fst (events_loop w m (label (days ! i) = js ''TODAY'') (events (days ! i)) 0 (y1 + 35))
             @ days_loop w m days (Suc i)
                 (snd (events_loop w m (label (days ! i) = js ''TODAY'') (events (days ! i)) 0
                         (y1 + 35))))"
proof (cases "i = 0")
  case True
  then have "y1 + 35 = y + 35" "y1 + 80 = 80 + y" using assms(3) by simp_all
  then show ?thesis using assms True
    by (subst days_loop.simps)
       (simp add: Let_def dayHeaderHeight_def eventRowHeight_def add.commute)
next
  case False
  then have "y1 + 35 = 50 + y" "y1 + 80 = 95 + y" using assms(3) by simp_all
  then show ?thesis using assms False
    by (subst days_loop.simps) (simp add: Let_def dayHeaderHeight_def eventRowHeight_def)
qed

lemma events_loop_cursor: "y \<le> snd (events_loop w m td evs i y)"
proof (induction "length evs - i" arbitrary: i y)
  case 0
  then show ?case by (simp add: events_loop_done)
next
  case (Suc n)
  then have n: "n = length evs - Suc i" and i: "i < length evs" by simp_all
  show ?case
  proof (cases "y + 30 > m")
    case True
    then show ?thesis using i by (simp add: events_loop_marker)
  next
    case False
    then show ?thesis using i Suc(1) [OF n, of "y + 45"] by (simp add: events_loop_row)
  qed
qed

lemma event_row_within:
  assumes "y + 30 \<le> m" "m + 50 \<le> h" "c \<in> set (event_row w m td evs i y)"
  shows "cmd_within w 0 h c"
  using assms by (auto simp: event_row_def Let_def eventRowHeight_def split: if_splits)

lemma events_loop_within:
  assumes "m + 50 \<le> h"
  shows "y \<le> m + 15 \<Longrightarrow> c \<in> set (fst (events_loop w m td evs i y)) \<Longrightarrow> cmd_within w 0 h c"
proof (induction "length evs - i" arbitrary: i y)
  case 0
  then show ?case by (simp add: events_loop_done)
next
  case (Suc n)
  then have n: "n = length evs - Suc i" and i: "i < length evs" by simp_all
  show ?case
  proof (cases "y + 30 > m")
    case True
    then have "c = Text MARGIN y (more_marker (int (length evs) - int i)) LIGHT_GRAY 2"
      using Suc(4) i by (simp add: events_loop_marker)
    then show ?thesis using Suc(3) assms by simp
  next
    case False
    then have "c \<in> set (event_row w m td evs i y)
        \<or> c \<in> set (fst (events_loop w m td evs (Suc i) (y + 45)))"
      using Suc(4) i by (simp add: events_loop_row)
    then show ?thesis
    proof
      assume "c \<in> set (event_row w m td evs i y)"
      then show ?thesis using event_row_within [of y m h c w td evs i] False assms by simp
    next
      assume "c \<in> set (fst (events_loop w m td evs (Suc i) (y + 45)))"
      then show ?thesis using Suc(1) [OF n, of "y + 45"] False by simp
    qed
  qed
qed

lemma days_loop_within:
  assumes "m + 50 \<le> h"
  shows "0 \<le> y \<Longrightarrow> c \<in> set (days_loop w m days i y) \<Longrightarrow> cmd_within w 0 h c"
proof (induction "length days - i" arbitrary: i y)
  case 0
  then show ?case by (simp add: days_loop_done)
next
  case (Suc n)
  then have n: "n = length days - Suc i" and i: "i < length days" by simp_all
  show ?case
  proof (cases "y + 85 > m")
    case True
    then show ?thesis using Suc(4) i by (simp add: days_loop_full)
  next
    case False
    define y1 where "y1 = (if i \<noteq> 0 then y + 15 else y)"
    have y1: "y \<le> y1" "y1 \<le> y + 15" by (simp_all add: y1_def)
    let ?td = "label (days ! i) = js ''TODAY''"
    let ?r = "events_loop w m ?td (events (days ! i)) 0 (y1 + 35)"
    from Suc(4) consider
        "c = DashedHLine y MARGIN (w - MARGIN) DARK_GRAY 6 4"
      | "c = Text MARGIN y1 (label (days ! i)) (if ?td then INK_BLACK else DARK_GRAY) 2"
      | "c = Text (MARGIN + timeColumnWidth) (y1 + 35) (js ''No events'') LIGHT_GRAY 2"
      | "c \<in> set (days_loop w m days (Suc i) (y1 + 80))"
      | "c \<in> set (fst ?r)"
      | "c \<in> set (days_loop w m days (Suc i) (snd ?r))"
      unfolding days_loop_day [OF i False y1_def] by (auto split: if_splits)
    then show ?thesis
    proof cases
      case 1
      then show ?thesis using Suc(3) False assms by (simp add: MARGIN_def)
    next
      case 2
      then show ?thesis using Suc(3) False assms y1 by simp
    next
      case 3
      then show ?thesis using Suc(3) False assms y1 by simp
    next
      case 4
      then show ?thesis using Suc(1) [OF n, of "y1 + 80"] Suc(3) y1 by simp
    next
      case 5
      then show ?thesis
        using events_loop_within [OF assms, of "y1 + 35" c w ?td "events (days ! i)" 0] False y1
        by simp
    next
      case 6
      have "0 \<le> snd ?r"
        using events_loop_cursor [of "y1 + 35" w m ?td "events (days ! i)" 0] Suc(3) y1 by simp
      then show ?thesis using Suc(1) [OF n, of "snd ?r"] 6 by simp
    qed
  qed
qed

lemma rows_in_buffer:
  assumes "0 < w" "rows_in w 0 h ss" "s \<in> set ss"
  shows "in_buffer w h (fst s)"
proof -
  let ?i = "fst s"
  have r: "0 \<le> ?i div w" "?i div w < h" using assms(2,3) by (auto simp: rows_in_def)
  have nonneg: "0 \<le> ?i" using r(1) assms(1) by (simp add: pos_imp_zdiv_nonneg_iff)
  have "?i = w * (?i div w) + ?i mod w" by simp
  moreover have "?i mod w < w" using assms(1) by simp
  ultimately have "?i < w * (?i div w) + w" by linarith
  also have "\<dots> = w * (?i div w + 1)" by (simp add: algebra_simps)
  also have "\<dots> \<le> w * h" using r(2) assms(1) by (intro mult_left_mono) simp_all
  finally show ?thesis using nonneg by (simp add: in_buffer_def)
qed

lemma drawChar_width: "s \<in> set (drawChar w x y ch color scale) \<Longrightarrow> 0 < w"
  by (auto simp: drawChar_def Let_def split: option.splits if_splits)

lemma drawText_loop_width: "s \<in> set (fst (drawText_loop w x y chs color scale)) \<Longrightarrow> 0 < w"
  by (induction chs arbitrary: x) (auto simp: Let_def dest: drawChar_width)

lemma glyph_stores:
  assumes "s \<in> set ss" "rows_in w (max 0 y) (y + 8 * scale) ss" "0 < w"
  shows "0 \<le> fst s \<and> (y + 8 * scale \<le> h \<longrightarrow> in_buffer w h (fst s))"
proof -
  have "0 \<le> fst s div w" using assms(1,2) by (auto simp: rows_in_def)
  then have nonneg: "0 \<le> fst s" using assms(3) by (simp add: pos_imp_zdiv_nonneg_iff)
  have "in_buffer w h (fst s)" if "y + 8 * scale \<le> h"
    using rows_in_buffer [OF assms(3) rows_in_mono [OF assms(2), of 0 h] assms(1)] that by simp
  then show ?thesis using nonneg by simp
qed

lemma render_cmds_within:
  assumes "277 \<le> w" "252 \<le> h" "c \<in> set (render_cmds w h weather days g)"
  shows "cmd_within w 0 h c"
proof -
  have m: "(h - FOOTER_HEIGHT) + 50 \<le> h" by (simp add: FOOTER_HEIGHT_def)
  from assms(3) consider "c \<in> set (weather_band w weather)" | "c \<in> set (date_header w g)"
    | "c \<in> set (agenda w h days)" | "c \<in> set (footer w h g)"
    by (auto simp: render_cmds_def)
  then show ?thesis
  proof cases
    case 1
    then show ?thesis
      using cmd_within_mono [OF weather_band_within [OF assms(1)], of c weather 0 h] assms(2)
      by simp
  next
    case 2
    then show ?thesis
      using cmd_within_mono [OF date_header_within, of c w g 0 h] assms(2) by simp
  next
    case 3
    then show ?thesis
      using days_loop_within [OF m, of "dateSectionEnd + 20" c w days 0]
      by (simp add: agenda_def dateSectionEnd_def weatherSectionHeight_def)
  next
    case 4
    then show ?thesis
      using cmd_within_mono [OF footer_within, of c w h g 0 h] assms(2) by simp
  qed
qed




end
